theory Spec2Isabelle
  imports Main "HOL-Library.Word"
begin

section \<open>ecd\_sample\_prep: data model\<close>

text \<open>
  The program's integers keep their widths: \<open>uint8_t\<close>, \<open>uint32_t\<close> and
  \<open>uint64_t\<close> are words read with \<open>unat\<close>; an \<open>int\<close> that comes out of
  \<open>atoi\<close> is a 32-bit word read with \<open>sint\<close>. The entries of the LVDS table and
  the loop counters that build it stay below 2056, so they are plain integers. A
  buffer is the list of its bytes. An \<open>int\<close> computation that can leave the range of
  \<open>int\<close> is checked where it is made: the loop start \<open>dr.first-1\<close> of
  \<open>buildDataFrame\<close>, the row offset \<open>ROW_SIZE * row\<close> of \<open>reorderForLvds\<close> and the
  increment of the \<open>int32_t\<close> counter \<open>frameGroup\<close> of \<open>writeOutputFile\<close>.
\<close>

type_synonym u8 = "8 word"
type_synonym u32 = "32 word"
type_synonym u64 = "64 word"
type_synonym i32 = "32 word"

text \<open>\<open>const int ROW_SIZE = 2048\<close>: the number of cells in a single data row.\<close>

definition ROW_SIZE :: nat where
  "ROW_SIZE = 2048"

section \<open>The LVDS translation table\<close>

text \<open>
  \<open>createLvdsTranslationTable\<close> is three nested counting loops over the global array
  \<open>lvdsTranslationTable\<close>. The array is passed in and returned. The innermost loop
  carries \<open>cellValue\<close> next to the array:
  \<^verbatim>\<open>lvdsTranslationTable[rowOffset - i] = cellValue; cellValue = cellValue + 8;\<close>
  (\<open>rowOffset - i\<close> is never negative: \<open>rowOffset \<ge> 63\<close> and \<open>i \<le> 63\<close>).
\<close>

fun lvdsCellStep :: "int \<Rightarrow> nat \<Rightarrow> int list \<times> int \<Rightarrow> int list \<times> int" where
  "lvdsCellStep rowOffset i (tbl, cellValue) =
     (tbl[nat (rowOffset - int i) := cellValue], cellValue + 8)"

text \<open>The body of \<open>for (int row=0; row < 4; ++row)\<close>.\<close>

definition lvdsRowStep :: "int \<Rightarrow> int \<Rightarrow> nat \<Rightarrow> int list \<Rightarrow> int list" where
  "lvdsRowStep grp groupOffset row tbl =
     (let rowOffset = groupOffset + int row * 64;
          cellValue = int row * 512 + grp
      in fst (fold (lvdsCellStep rowOffset) [0..<64] (tbl, cellValue)))"

text \<open>The body of \<open>for (int group = 0; group < 8; ++group)\<close>.\<close>

definition lvdsGroupStep :: "nat \<Rightarrow> int list \<Rightarrow> int list" where
  "lvdsGroupStep grp tbl =
     (let groupOffset = int grp * 256 + 63
      in fold (lvdsRowStep (int grp) groupOffset) [0..<4] tbl)"

definition createLvdsTranslationTable :: "int list \<Rightarrow> int list" where
  "createLvdsTranslationTable tbl = fold lvdsGroupStep [0..<8] tbl"

text \<open>
  The global \<open>int lvdsTranslationTable[ROW_SIZE]\<close> is zero-initialised static storage;
  \<open>execute\<close> fills it once, before anything reads it.
\<close>

definition lvdsTranslationTable :: "int list" where
  "lvdsTranslationTable = createLvdsTranslationTable (replicate ROW_SIZE 0)"

section \<open>Configuration, distribution records and errors\<close>

text \<open>
  \<open>struct config_t\<close>; the field names match the configuration file.
\<close>

record config_t =
  cells_per_frame :: u32
  contig_size :: u64
  diagnostic_values :: "u8 list"
  data_frames :: u32
  quiescent :: u8
  fragment_file :: string
  distribution_file :: string
  output_file :: string

text \<open>
  \<open>struct distribution_t {int first, last, step; vector<uint8_t> cellValue;}\<close>.
  The field \<open>last\<close> is written \<open>last_cell\<close> here.
\<close>

record distribution_t =
  first :: i32
  last_cell :: i32
  step :: i32
  cellValue :: "u8 list"

text \<open>
  The six statistics \<open>verifyDistributionIsValid\<close> computes and prints. It returns
  \<open>frameGroupCount\<close>.
\<close>

record capacity_t =
  longestSequence :: u32
  frameGroupLength :: u32
  frameGroupCount :: u32
  maxFrames :: u32
  totalReqdFrames :: u32
  totalContigReqd :: u64

text \<open>
  Every way the program stops early. \<open>throwRuntime\<close> carries the formatted message's
  argument; \<open>exit(1)\<close> follows a printed message. \<open>DivideByZero\<close>, \<open>OutOfBounds\<close> and
  \<open>SignedOverflow\<close> are not raised by the program: they stand for an integer division by
  zero, for an access outside the frame buffer and for an \<open>int\<close> result above
  \<open>INT_MAX\<close>, where C++ gives the program no defined behaviour.
\<close>

datatype error =
    FileNotFound string
  | InvalidCellNumber i32
  | UndefinedFragmentName string
  | NotMultipleOfRowSize
  | WontFit capacity_t
  | CantCreate string
  | InvalidCellOffset int
  | DivideByZero
  | OutOfBounds
  | SignedOverflow

text \<open>
  The configuration file shipped with the program (\<open>ecd_sample_prep.conf\<close>).
\<close>

definition shippedConfig :: config_t where
  "shippedConfig =
     \<lparr> cells_per_frame = 2048,
       contig_size = 42949672960,
       diagnostic_values = [34, 32, 172],
       data_frames = 4582,
       quiescent = 170,
       fragment_file = ''fragments.csv'',
       distribution_file = ''distribution.csv'',
       output_file = ''output.dat'' \<rparr>"

section \<open>Frame transform: forward reorder and inverse lookup\<close>

text \<open>
  One pass of the row loop of \<open>reorderForLvds\<close>: \<open>rawRow = rawFrame + ROW_SIZE * row\<close>,
  \<open>lvdsRow[i] = rawRow[lvdsTranslationTable[i]]\<close> for every \<open>i\<close>, then
  \<open>memcpy(rawRow, lvdsRow, ROW_SIZE)\<close>. The product \<open>ROW_SIZE * row\<close> is an \<open>int\<close>
  times an \<open>int\<close>: above \<open>INT_MAX = 2147483647\<close> it is \<open>SignedOverflow\<close>. The table
  holds every offset of \<open>[0, ROW_SIZE)\<close>, so the pass reads and writes exactly the
  \<open>ROW_SIZE\<close> bytes from \<open>rawRow\<close> on; when the buffer ends before them the pass is
  \<open>OutOfBounds\<close>.
\<close>

definition reorderRow :: "u8 list \<Rightarrow> nat \<Rightarrow> error + u8 list" where
  "reorderRow rawFrame row =
     (if 2147483647 < ROW_SIZE * row then Inl SignedOverflow
      else
        (let rawRow = ROW_SIZE * row
         in if length rawFrame < rawRow + ROW_SIZE then Inl OutOfBounds
            else
              (let lvdsRow = map (\<lambda>i. rawFrame ! (rawRow + nat (lvdsTranslationTable ! i)))
                               [0..<ROW_SIZE]
               in Inr (take rawRow rawFrame @ lvdsRow @ drop (rawRow + ROW_SIZE) rawFrame))))"

text \<open>
  \<open>reorderForLvds\<close>: \<open>int rowsPerFrame = config.cells_per_frame / ROW_SIZE\<close> is an
  unsigned division whose result, at most \<open>2^21 - 1\<close>, fits the \<open>int\<close>; \<open>row\<close> counts
  from 0 up to it. The first pass that fails ends the function.
\<close>

definition reorderForLvds :: "config_t \<Rightarrow> u8 list \<Rightarrow> error + u8 list" where
  "reorderForLvds cfg rawFrame =
     (let rowsPerFrame = unat (cells_per_frame cfg) div ROW_SIZE
      in fold (\<lambda>row result. case result of Inl e \<Rightarrow> Inl e | Inr frame \<Rightarrow> reorderRow frame row)
           [0..<rowsPerFrame] (Inr rawFrame))"

text \<open>
  \<open>findLvdsCellOffset\<close>: the first index whose entry equals \<open>rawCellOffset\<close>, or the
  runtime error \<open>BUG: findLvdsCellOffset with invalid cell offset\<close>.
\<close>

definition findLvdsCellOffset :: "int \<Rightarrow> error + int" where
  "findLvdsCellOffset rawCellOffset =
     (case find (\<lambda>i. lvdsTranslationTable ! i = rawCellOffset) [0..<ROW_SIZE] of
        Some i \<Rightarrow> Inr (int i)
      | None \<Rightarrow> Inl (InvalidCellOffset rawCellOffset))"

section \<open>Loading the distribution definitions\<close>

text \<open>\<open>map<string, vector<int>> fragment\<close>, filled by \<open>loadFragments\<close>.\<close>

type_synonym fragment_table = "string \<rightharpoonup> i32 list"

text \<open>
  One line of the distribution file, as \<open>loadDistribution\<close> sees it through the
  tokenizer: the three results of \<open>getNextCommaSeparatedInt\<close> (\<open>atoi\<close> of the token, 0
  for a missing or empty one) and the tokens \<open>getNextCommaSeparatedToken\<close> returns after
  the \<open>$\<close>. Blank lines, comments and lines without \<open>$\<close> are skipped before this
  point and are not lines here.
\<close>

record distribution_line =
  firstField :: i32
  lastField :: i32
  stepField :: i32
  fragmentNames :: "string list"

text \<open>
  \<open>while (getNextCommaSeparatedToken(p, fragmentName))\<close>: look the name up, throw
  \<open>Undefined fragment name\<close> when it is absent, otherwise append the fragment's values
  to \<open>drcv\<close> (each \<open>int\<close> narrowed to \<open>uint8_t\<close>).
\<close>

fun appendFragments :: "fragment_table \<Rightarrow> string list \<Rightarrow> u8 list \<Rightarrow> error + u8 list" where
  "appendFragments fragment [] drcv = Inr drcv"
| "appendFragments fragment (fragmentName # names) drcv =
     (case fragment fragmentName of
        None \<Rightarrow> Inl (UndefinedFragmentName fragmentName)
      | Some fragcv \<Rightarrow> appendFragments fragment names (drcv @ map ucast fragcv))"

text \<open>
  The body of the line loop from the three integers on. The test
  \<open>distRecord.first > config.cells_per_frame\<close> compares an \<open>int\<close> with a \<open>uint32_t\<close>,
  so it is the unsigned comparison of the two words.
\<close>

definition loadDistributionLine ::
  "config_t \<Rightarrow> fragment_table \<Rightarrow> distribution_line \<Rightarrow> distribution_t list
     \<Rightarrow> error + distribution_t list" where
  "loadDistributionLine cfg fragment ln distributionList =
     (if sint (firstField ln) < 1 \<or> cells_per_frame cfg < firstField ln
      then Inl (InvalidCellNumber (firstField ln))
      else
        (let lastValue = (if lastField ln = 0 then firstField ln else lastField ln);
             stepValue = (if stepField ln = 0 then 1 else stepField ln)
         in case appendFragments fragment (fragmentNames ln) [] of
              Inl e \<Rightarrow> Inl e
            | Inr drcv \<Rightarrow>
                Inr (distributionList @
                  [\<lparr> first = firstField ln, last_cell = lastValue, step = stepValue,
                     cellValue = drcv \<rparr>])))"

text \<open>
  The line loop. An exception leaves the global \<open>distributionList\<close> as the lines before
  had made it; the result is the exception, if any, and the list.
\<close>

fun loadDistributionLines ::
  "config_t \<Rightarrow> fragment_table \<Rightarrow> distribution_line list \<Rightarrow> distribution_t list
     \<Rightarrow> error option \<times> distribution_t list" where
  "loadDistributionLines cfg fragment [] distributionList = (None, distributionList)"
| "loadDistributionLines cfg fragment (ln # lns) distributionList =
     (case loadDistributionLine cfg fragment ln distributionList of
        Inl e \<Rightarrow> (Some e, distributionList)
      | Inr distributionList' \<Rightarrow> loadDistributionLines cfg fragment lns distributionList')"

text \<open>\<open>loadDistribution\<close>: the file may be missing (\<open>None\<close>).\<close>

definition loadDistribution ::
  "config_t \<Rightarrow> fragment_table \<Rightarrow> distribution_line list option \<Rightarrow> distribution_t list
     \<Rightarrow> error option \<times> distribution_t list" where
  "loadDistribution cfg fragment file distributionList =
     (case file of
        None \<Rightarrow> (Some (FileNotFound (distribution_file cfg)), distributionList)
      | Some lns \<Rightarrow> loadDistributionLines cfg fragment lns distributionList)"

section \<open>Capacity planning\<close>

text \<open>
  \<open>findLongestSequence\<close>: \<open>longestLength\<close> is a \<open>uint32_t\<close>; the comparison is made on
  \<open>size_t\<close> and the assignment narrows the size to 32 bits.
\<close>

definition findLongestSequence :: "distribution_t list \<Rightarrow> u32" where
  "findLongestSequence distributionList =
     fold (\<lambda>distRec longestLength.
             if unat longestLength < length (cellValue distRec)
             then of_nat (length (cellValue distRec)) else longestLength)
          distributionList 0"

text \<open>
  \<open>verifyDistributionIsValid\<close>. The result carries the six printed statistics; the
  C++ return value is \<open>frameGroupCount\<close> of it. \<open>contig_size / cells_per_frame\<close> is a
  64-bit division narrowed to \<open>uint32_t\<close>; the two divisions trap on a zero divisor.
\<close>

definition verifyDistributionIsValid :: "config_t \<Rightarrow> distribution_t list \<Rightarrow> error + capacity_t" where
  "verifyDistributionIsValid cfg distributionList =
     (let diagnosticFrames = (of_nat (length (diagnostic_values cfg)) :: u32) in
      if cells_per_frame cfg mod of_nat ROW_SIZE \<noteq> 0 then Inl NotMultipleOfRowSize
      else if cells_per_frame cfg = 0 then Inl DivideByZero
      else
        (let maxFramesValue = (ucast (contig_size cfg div ucast (cells_per_frame cfg)) :: u32);
             longest = findLongestSequence distributionList;
             groupLength = diagnosticFrames + data_frames cfg
         in if data_frames cfg = 0 then Inl DivideByZero
            else
              (let groupCount = longest div data_frames cfg + 1;
                   totalFrames = groupCount * groupLength;
                   totalContig = (ucast totalFrames :: u64) * ucast (cells_per_frame cfg);
                   stats = \<lparr> longestSequence = longest, frameGroupLength = groupLength,
                             frameGroupCount = groupCount, maxFrames = maxFramesValue,
                             totalReqdFrames = totalFrames, totalContigReqd = totalContig \<rparr>
               in if maxFramesValue < totalFrames then Inl (WontFit stats) else Inr stats)))"

section \<open>Building a data frame\<close>

text \<open>
  The cell loop of \<open>buildDataFrame\<close>:
  \<^verbatim>\<open>for (uint32_t cellNumber = dr.first-1; cellNumber < dr.last; cellNumber += dr.step)
      frame[cellNumber] = dr.cellValue[frameNumber];\<close>
  \<open>cellNumber\<close> is a \<open>uint32_t\<close>: the comparison with the \<open>int\<close> \<open>dr.last\<close> is
  unsigned and the addition of \<open>dr.step\<close> wraps modulo \<open>2^32\<close>. The frame buffer has
  \<open>cells_per_frame\<close> bytes; a store at or beyond its end is \<open>OutOfBounds\<close>. The loop
  need not end (\<open>step = 0\<close>), which is the value \<open>None\<close>.
\<close>

partial_function (option) populateCells ::
  "u32 \<Rightarrow> u32 \<Rightarrow> u32 \<Rightarrow> u8 \<Rightarrow> u8 list \<Rightarrow> (error + u8 list) option" where
  "populateCells cellNumber lastCell stepSize v frame =
     (if cellNumber < lastCell
      then (if unat cellNumber < length frame
            then populateCells (cellNumber + stepSize) lastCell stepSize v
                   (frame[unat cellNumber := v])
            else Some (Inl OutOfBounds))
      else Some (Inr frame))"

text \<open>
  The body of \<open>for (auto& dr : distributionList)\<close>. The loop's start \<open>dr.first-1\<close> is
  an \<open>int\<close> subtraction, \<open>SignedOverflow\<close> at \<open>INT_MIN\<close>, whose result is converted to
  the \<open>uint32_t\<close> \<open>cellNumber\<close>.
\<close>

definition distributeRecord ::
  "u32 \<Rightarrow> distribution_t \<Rightarrow> u8 list \<Rightarrow> (error + u8 list) option" where
  "distributeRecord frameNumber dr frame =
     (if unat frameNumber < length (cellValue dr)
      then (if sint (first dr) = - 2147483648 then Some (Inl SignedOverflow)
            else populateCells (first dr - 1) (last_cell dr) (step dr)
                   (cellValue dr ! unat frameNumber) frame)
      else Some (Inr frame))"

fun distributeRecords ::
  "u32 \<Rightarrow> distribution_t list \<Rightarrow> u8 list \<Rightarrow> (error + u8 list) option" where
  "distributeRecords frameNumber [] frame = Some (Inr frame)"
| "distributeRecords frameNumber (dr # drs) frame =
     (case distributeRecord frameNumber dr frame of
        None \<Rightarrow> None
      | Some (Inl e) \<Rightarrow> Some (Inl e)
      | Some (Inr frame') \<Rightarrow> distributeRecords frameNumber drs frame')"

text \<open>
  \<open>buildDataFrame\<close>: \<open>memset(frame, config.quiescent, config.cells_per_frame)\<close>, then
  the records in list order.
\<close>

definition buildDataFrame ::
  "config_t \<Rightarrow> distribution_t list \<Rightarrow> u32 \<Rightarrow> (error + u8 list) option" where
  "buildDataFrame cfg distributionList frameNumber =
     distributeRecords frameNumber distributionList
       (replicate (unat (cells_per_frame cfg)) (quiescent cfg))"

section \<open>Writing the output file\<close>

text \<open>
  The files the program can see: their contents, and the paths \<open>fopen(..., "w")\<close>
  cannot create. The output goes through a buffered \<open>FILE*\<close>: when the program is
  stopped by an operation without defined behaviour before \<open>fclose\<close>, how much of what
  was passed to \<open>fwrite\<close> has reached the file is not determined by the program, and
  the file's content is \<open>Indeterminate\<close>.
\<close>

datatype file_content = Bytes "u8 list" | Indeterminate

record filesystem =
  contents :: "string \<rightharpoonup> file_content"
  unwritable :: "string set"

text \<open>
  The diagnostic loop of one frame group: for each \<open>i < diagnosticFrames\<close>,
  \<open>memset(frame, config.diagnostic_values[i], config.cells_per_frame)\<close> and \<open>fwrite\<close>.
  \<open>diagnosticFrames\<close> is the vector's size narrowed to \<open>uint32_t\<close>.
\<close>

definition writeDiagnosticFrames :: "config_t \<Rightarrow> u8 list \<Rightarrow> u8 list" where
  "writeDiagnosticFrames cfg ofile =
     (let diagnosticFrames = (of_nat (length (diagnostic_values cfg)) :: u32)
      in fold (\<lambda>i out. out @ replicate (unat (cells_per_frame cfg)) (diagnostic_values cfg ! i))
           [0..<unat diagnosticFrames] ofile)"

text \<open>
  The data loop of one frame group, \<open>for (i=0; i<config.data_frames; ++i)\<close>, by the
  number of iterations left; the state is \<open>frameNumber\<close> and the bytes passed to
  \<open>fwrite\<close> so far. \<open>buildDataFrame(frame, frameNumber++)\<close> and, unless \<open>-nolvds\<close> was
  given, \<open>reorderForLvds(frame)\<close> can fail, which ends the loop with the failure alone.
\<close>

fun writeDataFrames ::
  "config_t \<Rightarrow> bool \<Rightarrow> distribution_t list \<Rightarrow> nat \<Rightarrow> u32 \<Rightarrow> u8 list
     \<Rightarrow> (error + u32 \<times> u8 list) option" where
  "writeDataFrames cfg nolvds dl 0 frameNumber ofile = Some (Inr (frameNumber, ofile))"
| "writeDataFrames cfg nolvds dl (Suc remaining) frameNumber ofile =
     (case buildDataFrame cfg dl frameNumber of
        None \<Rightarrow> None
      | Some (Inl e) \<Rightarrow> Some (Inl e)
      | Some (Inr frame) \<Rightarrow>
          (case (if nolvds then Inr frame else reorderForLvds cfg frame) of
             Inl e \<Rightarrow> Some (Inl e)
           | Inr lvdsFrame \<Rightarrow>
               writeDataFrames cfg nolvds dl remaining (frameNumber + 1) (ofile @ lvdsFrame)))"

text \<open>
  The frame-group loop,
  \<^verbatim>\<open>for (int32_t frameGroup = 0; frameGroup < frameGroupCount; ++frameGroup)\<close>.
  The counter is an \<open>int32_t\<close> and \<open>frameGroupCount\<close> a \<open>uint32_t\<close>, so the test is the
  unsigned comparison of the two words; \<open>++frameGroup\<close> at \<open>INT_MAX\<close> is
  \<open>SignedOverflow\<close>.
\<close>

function writeFrameGroups ::
  "config_t \<Rightarrow> bool \<Rightarrow> distribution_t list \<Rightarrow> u32 \<Rightarrow> i32 \<Rightarrow> u32 \<Rightarrow> u8 list
     \<Rightarrow> (error + u32 \<times> u8 list) option" where
  "writeFrameGroups cfg nolvds dl groupCount frameGroup frameNumber ofile =
     (if frameGroup < groupCount
      then (case writeDataFrames cfg nolvds dl (unat (data_frames cfg)) frameNumber
                   (writeDiagnosticFrames cfg ofile) of
              None \<Rightarrow> None
            | Some (Inl e) \<Rightarrow> Some (Inl e)
            | Some (Inr (frameNumber', ofile')) \<Rightarrow>
                if sint frameGroup = 2147483647 then Some (Inl SignedOverflow)
                else writeFrameGroups cfg nolvds dl groupCount (frameGroup + 1) frameNumber' ofile')
      else Some (Inr (frameNumber, ofile)))"
  by pat_completeness auto

termination writeFrameGroups
proof (relation "measure (\<lambda>(cfg, nolvds, dl, groupCount, frameGroup, frameNumber, ofile).
                            unat groupCount - unat frameGroup)", goal_cases)
  case 1
  show ?case by simp
next
  case (2 cfg nolvds dl groupCount frameGroup frameNumber ofile result written frameNumber' ofile')
  then have lt: "frameGroup < groupCount" by simp
  have "unat groupCount < 2 ^ 32"
    using unsigned_less[of groupCount, where ?'a = nat] by simp
  moreover have l: "unat frameGroup < unat groupCount"
    using lt by (simp add: word_less_nat_alt)
  ultimately have "unat frameGroup + unat (1 :: i32) < 2 ^ 32" by simp
  then have "unat (frameGroup + 1) = unat frameGroup + 1"
    by (simp add: unat_add_lem[THEN iffD1])
  with l show ?case by simp
qed

declare writeFrameGroups.simps [simp del]

text \<open>
  \<open>writeOutputFile\<close>: the result is the exception or failure, if any, and the files
  afterwards. \<open>fopen\<close> can fail, which throws \<open>Can't create\<close> and leaves the files as
  they were. A failure inside the loops stops the program before \<open>fclose\<close>.
\<close>

definition writeOutputFile ::
  "config_t \<Rightarrow> bool \<Rightarrow> distribution_t list \<Rightarrow> u32 \<Rightarrow> filesystem
     \<Rightarrow> (error option \<times> filesystem) option" where
  "writeOutputFile cfg nolvds dl groupCount fs =
     (if output_file cfg \<in> unwritable fs then Some (Some (CantCreate (output_file cfg)), fs)
      else case writeFrameGroups cfg nolvds dl groupCount 0 0 [] of
             None \<Rightarrow> None
           | Some (Inl e) \<Rightarrow>
               Some (Some e, fs\<lparr> contents := (contents fs)(output_file cfg \<mapsto> Indeterminate) \<rparr>)
           | Some (Inr (frameNumber, ofile)) \<Rightarrow>
               Some (None, fs\<lparr> contents := (contents fs)(output_file cfg \<mapsto> Bytes ofile) \<rparr>))"

text \<open>
  \<open>execute\<close> from \<open>loadDistribution\<close> on (the \<open>-lvdsmap\<close> and \<open>-trace\<close> branches leave
  before it): load the distribution, validate the capacity, write the file. The fragment
  table is what \<open>loadFragments\<close> has read.
\<close>

definition execute ::
  "config_t \<Rightarrow> bool \<Rightarrow> fragment_table \<Rightarrow> distribution_line list option \<Rightarrow> filesystem
     \<Rightarrow> (error option \<times> filesystem) option" where
  "execute cfg nolvds fragment distributionFile fs =
     (case loadDistribution cfg fragment distributionFile [] of
        (Some e, distributionList) \<Rightarrow> Some (Some e, fs)
      | (None, distributionList) \<Rightarrow>
          (case verifyDistributionIsValid cfg distributionList of
             Inl e \<Rightarrow> Some (Some e, fs)
           | Inr stats \<Rightarrow> writeOutputFile cfg nolvds distributionList (frameGroupCount stats) fs))"

section \<open>Closed forms used in the proofs\<close>

text \<open>
  The entry the three loops leave at index \<open>j\<close>, and the index at which the value
  \<open>i\<close> ends up. Neither occurs in the program; the lemmas below relate them to it.
\<close>

definition lvdsEntry :: "nat \<Rightarrow> int" where
  "lvdsEntry j = int (((j mod 256) div 64) * 512 + j div 256 + 8 * (63 - j mod 64))"

definition lvdsInverse :: "nat \<Rightarrow> nat" where
  "lvdsInverse i = (i mod 8) * 256 + 64 * (i div 512) + (63 - (i div 8) mod 64)"

text \<open>
  The statistics \<open>verifyDistributionIsValid\<close> computes once it is past its first
  check and its two divisions.
\<close>

definition plannedCapacity :: "config_t \<Rightarrow> distribution_t list \<Rightarrow> capacity_t" where
  "plannedCapacity cfg dl =
     \<lparr> longestSequence = findLongestSequence dl,
       frameGroupLength = of_nat (length (diagnostic_values cfg)) + data_frames cfg,
       frameGroupCount = findLongestSequence dl div data_frames cfg + 1,
       maxFrames = ucast (contig_size cfg div ucast (cells_per_frame cfg)),
       totalReqdFrames = (findLongestSequence dl div data_frames cfg + 1)
                           * (of_nat (length (diagnostic_values cfg)) + data_frames cfg),
       totalContigReqd = ucast ((findLongestSequence dl div data_frames cfg + 1)
                           * (of_nat (length (diagnostic_values cfg)) + data_frames cfg))
                         * ucast (cells_per_frame cfg) \<rparr>"

section \<open>The frame builder's contract\<close>

text \<open>
  The range conditions on a distribution record under which the frame builder is
  specified: \<open>1 \<le> firstCell \<le> cells_per_frame\<close>, \<open>0 \<le> lastCell \<le> cells_per_frame\<close>
  and \<open>step \<ge> 1\<close>, the fields read as signed integers.
\<close>

definition recordInRange :: "config_t \<Rightarrow> distribution_t \<Rightarrow> bool" where
  "recordInRange cfg dr \<longleftrightarrow>
     1 \<le> sint (first dr) \<and> sint (first dr) \<le> uint (cells_per_frame cfg)
     \<and> 0 \<le> sint (last_cell dr) \<and> sint (last_cell dr) \<le> uint (cells_per_frame cfg)
     \<and> 1 \<le> sint (step dr)"

text \<open>
  The cells a record addresses: the indices \<open>firstCell - 1\<close>, \<open>firstCell - 1 + step\<close>,
  ... that are below \<open>lastCell\<close>.
\<close>

definition recordCovers :: "distribution_t \<Rightarrow> nat \<Rightarrow> bool" where
  "recordCovers dr c \<longleftrightarrow>
     nat (sint (first dr) - 1) \<le> c \<and> int c < sint (last_cell dr)
     \<and> (c - nat (sint (first dr) - 1)) mod nat (sint (step dr)) = 0"

text \<open>
  The byte of cell \<open>c\<close> in data frame \<open>n\<close>: \<open>quiescent\<close> when no record with more than
  \<open>n\<close> values addresses the cell, otherwise \<open>values[n]\<close> of the last such record in
  list order.
\<close>

definition frameCellSpec :: "config_t \<Rightarrow> distribution_t list \<Rightarrow> u32 \<Rightarrow> nat \<Rightarrow> u8" where
  "frameCellSpec cfg dl n c =
     (case filter (\<lambda>dr. unat n < length (cellValue dr) \<and> recordCovers dr c) dl of
        [] \<Rightarrow> quiescent cfg
      | rs \<Rightarrow> cellValue (last rs) ! unat n)"

text \<open>
  The data frame with number \<open>n\<close> in the contract's words: cell by cell, the byte
  above.
\<close>

definition dataFrameSpec :: "config_t \<Rightarrow> distribution_t list \<Rightarrow> u32 \<Rightarrow> u8 list" where
  "dataFrameSpec cfg dl n = map (frameCellSpec cfg dl n) [0..<unat (cells_per_frame cfg)]"

section \<open>The frame transform's contract\<close>

text \<open>
  A frame in LVDS order, in the specification's words: each whole row of \<open>ROW_SIZE\<close>
  cells on its own, \<open>output[i] = input[table[i]]\<close> for every \<open>i\<close> in \<open>[0, ROW_SIZE)\<close>.
  Cells after the last whole row, which a frame has only when its length is not a
  multiple of \<open>ROW_SIZE\<close>, stay where they are.
\<close>

definition lvdsFrameSpec :: "u8 list \<Rightarrow> u8 list" where
  "lvdsFrameSpec raw =
     map (\<lambda>k. if k < ROW_SIZE * (length raw div ROW_SIZE)
               then raw ! (ROW_SIZE * (k div ROW_SIZE) + nat (lvdsTranslationTable ! (k mod ROW_SIZE)))
               else raw ! k)
       [0..<length raw]"

section \<open>The layout of the output file\<close>

text \<open>
  The persisted layout in the specification's words, over the raw data frames
  \<open>raw 0\<close>, \<open>raw 1\<close>, ... numbered across the whole run. A frame group is one
  diagnostic frame per entry of \<open>diagnostic_values\<close>, each \<open>cells_per_frame\<close> copies of
  that entry, followed by \<open>data_frames\<close> data frames; data frame \<open>i\<close> of group \<open>g\<close> is
  raw frame \<open>g * data_frames + i\<close>, in LVDS order unless \<open>-nolvds\<close> was given.
\<close>

definition frameGroupLayout :: "config_t \<Rightarrow> bool \<Rightarrow> (nat \<Rightarrow> u8 list) \<Rightarrow> nat \<Rightarrow> u8 list" where
  "frameGroupLayout cfg nolvds raw g =
     concat (map (\<lambda>v. replicate (unat (cells_per_frame cfg)) v) (diagnostic_values cfg))
     @ concat (map (\<lambda>i. if nolvds then raw (g * unat (data_frames cfg) + i)
                          else lvdsFrameSpec (raw (g * unat (data_frames cfg) + i)))
                 [0..<unat (data_frames cfg)])"

text \<open>The file: the frame groups one after the other, and nothing else.\<close>

definition outputLayout :: "config_t \<Rightarrow> bool \<Rightarrow> (nat \<Rightarrow> u8 list) \<Rightarrow> nat \<Rightarrow> u8 list" where
  "outputLayout cfg nolvds raw groups = concat (map (frameGroupLayout cfg nolvds raw) [0..<groups])"

section \<open>The table is a permutation\<close>

lemma nth_list_update_gen:
  "xs[i := x] ! j = (if i = j \<and> j < length xs then x else xs ! j)"
  by (cases "i < length xs") (auto simp: nth_list_update list_update_beyond)

lemma mod_add_mult: "(q::nat) < c \<Longrightarrow> (q + c * m) mod c = q"
  by simp

lemma div_add_mult: "(q::nat) < c \<Longrightarrow> (q + c * m) div c = m"
  by simp

lemma cell_fold:
  "int n \<le> rowOffset + 1 \<Longrightarrow>
   fold (lvdsCellStep rowOffset) [0..<n] (tbl, cv) = (tbl', cv') \<Longrightarrow>
   cv' = cv + 8 * int n \<and> length tbl' = length tbl \<and>
   (\<forall>j<length tbl. tbl' ! j =
      (if int j \<le> rowOffset \<and> rowOffset - int j < int n then cv + 8 * (rowOffset - int j) else tbl ! j))"
proof (induction n arbitrary: tbl' cv')
  case 0
  then show ?case by auto
next
  case (Suc n)
  obtain t1 c1 where f: "fold (lvdsCellStep rowOffset) [0..<n] (tbl, cv) = (t1, c1)"
    by (cases "fold (lvdsCellStep rowOffset) [0..<n] (tbl, cv)")
  from Suc.prems(1) have le: "int n \<le> rowOffset + 1" and nn: "int n \<le> rowOffset" by simp_all
  note ih = Suc.IH[OF le f]
  from Suc.prems(2) f have eq: "tbl' = t1[nat (rowOffset - int n) := c1]" "cv' = c1 + 8"
    by simp_all
  have idx: "nat (rowOffset - int n) = j \<longleftrightarrow> int j = rowOffset - int n" for j
    using nn by auto
  show ?case
    using ih nn unfolding eq
    by (auto simp: nth_list_update_gen idx)
qed

lemma row_step:
  "length (lvdsRowStep (int g) (int g * 256 + 63) m tbl) = length tbl \<and>
    (\<forall>j<length tbl. lvdsRowStep (int g) (int g * 256 + 63) m tbl ! j =
      (if g * 256 + 64 * m \<le> j \<and> j < g * 256 + 64 * m + 64
       then int m * 512 + int g + 8 * (int g * 256 + 63 + int m * 64 - int j) else tbl ! j))"
proof -
  let ?ro = "int g * 256 + 63 + int m * 64"
  obtain t1 c1 where f: "fold (lvdsCellStep ?ro) [0..<64] (tbl, int m * 512 + int g) = (t1, c1)"
    by (cases "fold (lvdsCellStep ?ro) [0..<64] (tbl, int m * 512 + int g)")
  have le: "int 64 \<le> ?ro + 1" by simp
  have cond: "(int j \<le> ?ro \<and> ?ro - int j < int 64)
      \<longleftrightarrow> (g * 256 + 64 * m \<le> j \<and> j < g * 256 + 64 * m + 64)" for j
    by auto
  from cell_fold[OF le f] f
  show ?thesis
    unfolding cond by (simp add: lvdsRowStep_def Let_def)
qed

lemma row_step_len:
  "length (lvdsRowStep (int g) (int g * 256 + 63) m tbl) = length tbl"
  using row_step by blast

lemma row_step_in:
  "j < length tbl \<Longrightarrow> g * 256 + 64 * m \<le> j \<Longrightarrow> j < g * 256 + 64 * m + 64 \<Longrightarrow>
   lvdsRowStep (int g) (int g * 256 + 63) m tbl ! j =
     int m * 512 + int g + 8 * (int g * 256 + 63 + int m * 64 - int j)"
  using row_step[of g m tbl] by presburger

lemma row_step_out:
  "j < length tbl \<Longrightarrow> \<not> (g * 256 + 64 * m \<le> j \<and> j < g * 256 + 64 * m + 64) \<Longrightarrow>
   lvdsRowStep (int g) (int g * 256 + 63) m tbl ! j = tbl ! j"
  using row_step[of g m tbl] by presburger

lemma lvdsEntry_decomp:
  assumes "m < 4" "k < 64"
  shows "lvdsEntry (g * 256 + 64 * m + k) = int m * 512 + int g + 8 * (63 - int k)"
proof -
  have r: "64 * m + k < 256" using assms by simp
  have a: "(g * 256 + 64 * m + k) div 256 = g"
    using r by (simp add: add.assoc)
  have b: "(g * 256 + 64 * m + k) mod 256 = 64 * m + k"
    using r by (simp add: add.assoc)
  have c: "(64 * m + k) div 64 = m" using assms by simp
  have e: "g * 256 + 64 * m + k = k + 64 * (g * 4 + m)"
    by simp
  have "(k + 64 * q) mod 64 = k" for q
    using assms(2) by simp
  then have d: "(g * 256 + 64 * m + k) mod 64 = k"
    unfolding e .
  show ?thesis
    unfolding lvdsEntry_def a b c d using assms by (simp add: of_nat_diff)
qed

lemma row_fold:
  "m \<le> 4 \<Longrightarrow> length (fold (lvdsRowStep (int g) (int g * 256 + 63)) [0..<m] tbl) = length tbl \<and>
    (\<forall>j<length tbl. fold (lvdsRowStep (int g) (int g * 256 + 63)) [0..<m] tbl ! j =
      (if g * 256 \<le> j \<and> j < g * 256 + 64 * m then lvdsEntry j else tbl ! j))"
proof (induction m)
  case 0
  then show ?case by simp
next
  case (Suc m)
  let ?t = "fold (lvdsRowStep (int g) (int g * 256 + 63)) [0..<m] tbl"
  from Suc have m4: "m < 4" and ih: "length ?t = length tbl"
    "\<And>j. j < length tbl \<Longrightarrow> ?t ! j = (if g * 256 \<le> j \<and> j < g * 256 + 64 * m then lvdsEntry j else tbl ! j)"
    by simp_all
  have step: "fold (lvdsRowStep (int g) (int g * 256 + 63)) [0..<Suc m] tbl
      = lvdsRowStep (int g) (int g * 256 + 63) m ?t" by simp
  have "fold (lvdsRowStep (int g) (int g * 256 + 63)) [0..<Suc m] tbl ! j =
      (if g * 256 \<le> j \<and> j < g * 256 + 64 * Suc m then lvdsEntry j else tbl ! j)"
    if jl: "j < length tbl" for j
  proof (cases "g * 256 + 64 * m \<le> j \<and> j < g * 256 + 64 * m + 64")
    case True
    then obtain k where k: "j = g * 256 + 64 * m + k" "k < 64"
      by (metis add.commute add_less_cancel_left le_Suc_ex add.assoc)
    from jl ih(1) have jt: "j < length ?t" by simp
    have "lvdsRowStep (int g) (int g * 256 + 63) m ?t ! j
        = int m * 512 + int g + 8 * (int g * 256 + 63 + int m * 64 - int j)"
      using row_step_in[OF jt] True by blast
    also have "\<dots> = lvdsEntry j"
      unfolding k(1) lvdsEntry_decomp[OF m4 k(2)] by simp
    finally show ?thesis unfolding step using True by simp
  next
    case False
    from jl ih(1) have jt: "j < length ?t" by simp
    have "lvdsRowStep (int g) (int g * 256 + 63) m ?t ! j = ?t ! j"
      using row_step_out[OF jt False] .
    also have "\<dots> = (if g * 256 \<le> j \<and> j < g * 256 + 64 * m then lvdsEntry j else tbl ! j)"
      by (rule ih(2)[OF jl])
    also have "\<dots> = (if g * 256 \<le> j \<and> j < g * 256 + 64 * Suc m then lvdsEntry j else tbl ! j)"
      using False by auto
    finally show ?thesis unfolding step .
  qed
  moreover have "length (fold (lvdsRowStep (int g) (int g * 256 + 63)) [0..<Suc m] tbl) = length tbl"
    unfolding step using row_step_len ih(1) by simp
  ultimately show ?case by blast
qed

lemma group_step:
  "length (lvdsGroupStep g tbl) = length tbl \<and>
    (\<forall>j<length tbl. lvdsGroupStep g tbl ! j =
      (if g * 256 \<le> j \<and> j < g * 256 + 256 then lvdsEntry j else tbl ! j))"
  using row_fold[of 4 g tbl] by (simp add: lvdsGroupStep_def)

lemma group_fold:
  "length (fold lvdsGroupStep [0..<n] tbl) = length tbl \<and>
    (\<forall>j<length tbl. fold lvdsGroupStep [0..<n] tbl ! j =
      (if j < 256 * n then lvdsEntry j else tbl ! j))"
proof (induction n)
  case 0
  then show ?case by simp
next
  case (Suc n)
  let ?t = "fold lvdsGroupStep [0..<n] tbl"
  show ?case
    using Suc group_step[of n ?t] by auto
qed

lemma createLvdsTranslationTable_closed:
  assumes "length tbl = ROW_SIZE"
  shows "createLvdsTranslationTable tbl = map lvdsEntry [0..<ROW_SIZE]"
proof (rule nth_equalityI)
  show "length (createLvdsTranslationTable tbl) = length (map lvdsEntry [0..<ROW_SIZE])"
    using group_fold[of 8 tbl] assms by (simp add: createLvdsTranslationTable_def)
next
  fix i assume "i < length (createLvdsTranslationTable tbl)"
  then have "i < ROW_SIZE"
    using group_fold[of 8 tbl] assms by (simp add: createLvdsTranslationTable_def)
  then show "createLvdsTranslationTable tbl ! i = map lvdsEntry [0..<ROW_SIZE] ! i"
    using group_fold[of 8 tbl] assms by (simp add: createLvdsTranslationTable_def ROW_SIZE_def)
qed


lemma index_decomp:
  fixes j :: nat
  assumes "j < 2048"
  obtains g m k where "j = g * 256 + 64 * m + k" "g < 8" "m < 4" "k < 64"
proof
  show "j = (j div 256) * 256 + 64 * ((j mod 256) div 64) + j mod 64"
  proof -
    have "j mod 64 = (j mod 256) mod 64"
      by (simp add: mod_mod_cancel)
    then show ?thesis by (simp add: algebra_simps)
  qed
  show "j div 256 < 8" using assms by simp
  show "(j mod 256) div 64 < 4" by simp
  show "j mod 64 < 64" by simp
qed

lemma lvdsInverse_entry:
  assumes "j < 2048"
  shows "lvdsEntry j < 2048" "0 \<le> lvdsEntry j" "lvdsInverse (nat (lvdsEntry j)) = j"
proof -
  from assms obtain g m k where d: "j = g * 256 + 64 * m + k" "g < 8" "m < 4" "k < 64"
    by (rule index_decomp)
  have e: "lvdsEntry j = int (m * 512 + g + 8 * (63 - k))"
    unfolding d(1) lvdsEntry_decomp[OF d(3,4)] using d by (simp add: of_nat_diff)
  show "lvdsEntry j < 2048" "0 \<le> lvdsEntry j" unfolding e using d by simp_all
  let ?i = "m * 512 + g + 8 * (63 - k)"
  have r: "?i = g + 8 * (m * 64 + (63 - k))" by simp
  have i1: "?i mod 8 = g"
    unfolding r using d(2) by (rule mod_add_mult)
  have i3: "?i div 8 = m * 64 + (63 - k)"
    unfolding r using d(2) by (rule div_add_mult)
  have i2: "?i div 512 = m"
  proof -
    have "g + 8 * (63 - k) < 512" using d by simp
    then show ?thesis by simp
  qed
  have "((63 - k) + 64 * m) mod 64 = 63 - k"
    by (rule mod_add_mult) simp
  then have i4: "(m * 64 + (63 - k)) mod 64 = 63 - k"
    by (simp only: add.commute mult.commute)
  have "lvdsInverse (nat (lvdsEntry j)) = lvdsInverse ?i"
    by (simp only: e nat_int)
  also have "\<dots> = g * 256 + 64 * m + (63 - (63 - k))"
    by (simp only: lvdsInverse_def i1 i2 i3 i4)
  also have "\<dots> = j"
    using d(4) by (simp add: d(1))
  finally show "lvdsInverse (nat (lvdsEntry j)) = j" .
qed

lemma lvdsEntry_inverse:
  assumes "i < 2048"
  shows "lvdsInverse i < 2048" "lvdsEntry (lvdsInverse i) = int i"
proof -
  define a where "a = i div 8"
  define g where "g = i mod 8"
  define x where "x = a mod 64"
  define m where "m = a div 64"
  have ia: "i = 8 * a + g" by (simp add: a_def g_def)
  have am: "a = 64 * m + x" by (simp add: m_def x_def)
  have g: "g < 8" by (simp add: g_def)
  have x: "x < 64" by (simp add: x_def)
  have m: "m < 4" using assms by (simp add: m_def a_def div_mult2_eq)
  have m512: "i div 512 = m" by (simp add: m_def a_def div_mult2_eq)
  have f: "lvdsInverse i = g * 256 + 64 * m + (63 - x)"
    by (simp only: lvdsInverse_def g_def x_def a_def m512)
  have k: "63 - x < 64" by simp
  show "lvdsInverse i < 2048"
    unfolding f using g m k by linarith
  have "lvdsEntry (lvdsInverse i) = int m * 512 + int g + 8 * (63 - int (63 - x))"
    unfolding f by (rule lvdsEntry_decomp[OF m k])
  also have "\<dots> = int m * 512 + int g + 8 * int x"
    using x by (simp add: of_nat_diff)
  also have "\<dots> = int (8 * (64 * m + x) + g)"
    by simp
  also have "\<dots> = int i"
    by (simp only: ia am)
  finally show "lvdsEntry (lvdsInverse i) = int i" .
qed

lemma createLvdsTranslationTable_nth:
  assumes "length tbl = ROW_SIZE" "j < ROW_SIZE"
  shows "createLvdsTranslationTable tbl ! j = lvdsEntry j"
  using assms by (simp add: createLvdsTranslationTable_closed)

lemma lvdsTranslationTable_closed:
  "lvdsTranslationTable = map lvdsEntry [0..<ROW_SIZE]"
  by (simp add: lvdsTranslationTable_def createLvdsTranslationTable_closed)

lemma lvdsTranslationTable_nth:
  "j < ROW_SIZE \<Longrightarrow> lvdsTranslationTable ! j = lvdsEntry j"
  by (simp add: lvdsTranslationTable_closed)

lemma lvdsTranslationTable_length:
  "length lvdsTranslationTable = ROW_SIZE"
  by (simp add: lvdsTranslationTable_closed)

lemma lvdsTranslationTable_unique_index:
  assumes "i < ROW_SIZE"
  shows "\<exists>!j. j < ROW_SIZE \<and> lvdsTranslationTable ! j = int i"
proof (rule ex1I)
  from assms have i: "i < 2048" by (simp add: ROW_SIZE_def)
  show "lvdsInverse i < ROW_SIZE \<and> lvdsTranslationTable ! lvdsInverse i = int i"
    using lvdsEntry_inverse[OF i] by (simp add: lvdsTranslationTable_nth ROW_SIZE_def)
next
  fix j
  assume j: "j < ROW_SIZE \<and> lvdsTranslationTable ! j = int i"
  then have jr: "j < ROW_SIZE" and tj: "lvdsTranslationTable ! j = int i"
    by blast+
  from tj have "lvdsEntry j = int i"
    unfolding lvdsTranslationTable_nth[OF jr] .
  moreover from jr have "j < 2048"
    by (simp add: ROW_SIZE_def)
  ultimately have "j < 2048" and "lvdsEntry j = int i"
    by simp_all
  then show "j = lvdsInverse i"
    using lvdsInverse_entry(3)[of j] by simp
qed

text \<open>
  C1. The table built by \<open>createLvdsTranslationTable\<close> has \<open>ROW_SIZE\<close> = 2048 entries,
  every entry lies in \<open>[0, 2048)\<close>, and for every \<open>i\<close> in \<open>[0, 2048)\<close> exactly one
  index \<open>j\<close> in \<open>[0, 2048)\<close> has \<open>table[j] = i\<close>. Every entry is assigned: whatever
  the array held before the call, the result is the same table, so no entry keeps a
  default.
\<close>

theorem C1_translation_table_bijection:
  "ROW_SIZE = 2048
   \<and> length lvdsTranslationTable = ROW_SIZE
   \<and> (\<forall>j\<in>{0..<ROW_SIZE}. 0 \<le> lvdsTranslationTable ! j \<and> lvdsTranslationTable ! j < int ROW_SIZE)
   \<and> (\<forall>i\<in>{0..<ROW_SIZE}. \<exists>!j. j < ROW_SIZE \<and> lvdsTranslationTable ! j = int i)
   \<and> (\<forall>init. length init = ROW_SIZE \<longrightarrow> createLvdsTranslationTable init = lvdsTranslationTable)"
proof (intro conjI ballI allI impI)
  show "ROW_SIZE = 2048" by (simp add: ROW_SIZE_def)
  show "length lvdsTranslationTable = ROW_SIZE" by (rule lvdsTranslationTable_length)
next
  fix j assume "j \<in> {0..<ROW_SIZE}"
  then have j: "j < 2048" "j < ROW_SIZE" by (simp_all add: ROW_SIZE_def)
  from lvdsInverse_entry(1,2)[OF j(1)] j(2)
  show "0 \<le> lvdsTranslationTable ! j" "lvdsTranslationTable ! j < int ROW_SIZE"
    by (simp_all add: lvdsTranslationTable_nth ROW_SIZE_def)
next
  fix i assume "i \<in> {0..<ROW_SIZE}"
  then show "\<exists>!j. j < ROW_SIZE \<and> lvdsTranslationTable ! j = int i"
    by (simp add: lvdsTranslationTable_unique_index)
next
  fix init :: "int list" assume "length init = ROW_SIZE"
  then show "createLvdsTranslationTable init = lvdsTranslationTable"
    by (simp add: createLvdsTranslationTable_closed lvdsTranslationTable_closed)
qed

theorem C1_translation_table_witness:
  "(5::nat) \<in> {0..<ROW_SIZE}
   \<and> (\<exists>!j. j < ROW_SIZE \<and> lvdsTranslationTable ! j = int 5)
   \<and> 0 \<le> lvdsTranslationTable ! 5 \<and> lvdsTranslationTable ! 5 < int ROW_SIZE
   \<and> length (replicate ROW_SIZE (7::int)) = ROW_SIZE
   \<and> createLvdsTranslationTable (replicate ROW_SIZE 7) = lvdsTranslationTable"
proof -
  have m: "(5::nat) \<in> {0..<ROW_SIZE}" by (simp add: ROW_SIZE_def)
  have l: "length (replicate ROW_SIZE (7::int)) = ROW_SIZE" by simp
  from C1_translation_table_bijection m l show ?thesis by blast
qed

section \<open>Forward reorder and inverse lookup\<close>

lemma lvdsTranslationTable_range:
  assumes "i < ROW_SIZE"
  shows "0 \<le> lvdsTranslationTable ! i" "nat (lvdsTranslationTable ! i) < ROW_SIZE"
proof -
  from assms have i: "i < 2048" by (simp add: ROW_SIZE_def)
  from lvdsInverse_entry(1,2)[OF i]
  show "0 \<le> lvdsTranslationTable ! i" "nat (lvdsTranslationTable ! i) < ROW_SIZE"
    unfolding lvdsTranslationTable_nth[OF assms] by (simp_all add: ROW_SIZE_def)
qed

lemma reorderRow_pass:
  assumes fit: "ROW_SIZE * row + ROW_SIZE \<le> length f" and small: "ROW_SIZE * row \<le> 2147483647"
  shows "\<exists>g. reorderRow f row = Inr g \<and> length g = length f
     \<and> (\<forall>i<ROW_SIZE. g ! (ROW_SIZE * row + i) = f ! (ROW_SIZE * row + nat (lvdsTranslationTable ! i)))
     \<and> (\<forall>j<length f. j < ROW_SIZE * row \<or> ROW_SIZE * row + ROW_SIZE \<le> j \<longrightarrow> g ! j = f ! j)"
proof -
  let ?g = "take (ROW_SIZE * row) f
      @ map (\<lambda>i. f ! (ROW_SIZE * row + nat (lvdsTranslationTable ! i))) [0..<ROW_SIZE]
      @ drop (ROW_SIZE * row + ROW_SIZE) f"
  have r: "reorderRow f row = Inr ?g"
    using assms by (simp add: reorderRow_def Let_def)
  have l: "length ?g = length f" using fit by simp
  have a: "?g ! (ROW_SIZE * row + i) = f ! (ROW_SIZE * row + nat (lvdsTranslationTable ! i))"
    if "i < ROW_SIZE" for i
    using fit that by (simp add: nth_append)
  have b: "?g ! j = f ! j"
    if "j < length f" "j < ROW_SIZE * row \<or> ROW_SIZE * row + ROW_SIZE \<le> j" for j
    using fit that by (auto simp add: nth_append)
  show ?thesis
  proof (rule exI[of _ ?g], intro conjI allI impI)
    show "reorderRow f row = Inr ?g" by (rule r)
    show "length ?g = length f" by (rule l)
  next
    fix i assume "i < ROW_SIZE"
    then show "?g ! (ROW_SIZE * row + i) = f ! (ROW_SIZE * row + nat (lvdsTranslationTable ! i))"
      by (rule a)
  next
    fix j assume "j < length f" "j < ROW_SIZE * row \<or> ROW_SIZE * row + ROW_SIZE \<le> j"
    then show "?g ! j = f ! j" by (rule b)
  qed
qed

lemma reorder_fold:
  "ROW_SIZE * m \<le> length f \<Longrightarrow> m \<le> 1048576 \<Longrightarrow>
   \<exists>g. fold (\<lambda>row result. case result of Inl e \<Rightarrow> Inl e | Inr frame \<Rightarrow> reorderRow frame row)
          [0..<m] (Inr f) = Inr g
     \<and> length g = length f
     \<and> (\<forall>j<length f. g ! j =
          (if j < ROW_SIZE * m
           then f ! (ROW_SIZE * (j div ROW_SIZE) + nat (lvdsTranslationTable ! (j mod ROW_SIZE)))
           else f ! j))"
proof (induction m)
  case 0
  then show ?case by simp
next
  case (Suc m)
  let ?step = "\<lambda>row result. case result of Inl e \<Rightarrow> Inl e | Inr frame \<Rightarrow> reorderRow frame row"
  from Suc.prems have pm: "ROW_SIZE * m \<le> length f" and fit: "ROW_SIZE * m + ROW_SIZE \<le> length f"
    and mb: "m \<le> 1048576"
    by simp_all
  from Suc.prems(2) have small: "ROW_SIZE * m \<le> 2147483647"
    by (simp add: ROW_SIZE_def)
  from Suc.IH[OF pm mb] obtain g where fg: "fold ?step [0..<m] (Inr f) = Inr g"
    and len: "length g = length f"
    and ih: "\<And>j. j < length f \<Longrightarrow> g ! j =
      (if j < ROW_SIZE * m
       then f ! (ROW_SIZE * (j div ROW_SIZE) + nat (lvdsTranslationTable ! (j mod ROW_SIZE)))
       else f ! j)"
    by blast
  have fit': "ROW_SIZE * m + ROW_SIZE \<le> length g" using fit len by simp
  from reorderRow_pass[OF fit' small] obtain g' where rg: "reorderRow g m = Inr g'"
    and len': "length g' = length g"
    and inrow: "\<And>i. i < ROW_SIZE \<Longrightarrow>
          g' ! (ROW_SIZE * m + i) = g ! (ROW_SIZE * m + nat (lvdsTranslationTable ! i))"
    and outrow: "\<And>j. j < length g \<Longrightarrow> j < ROW_SIZE * m \<or> ROW_SIZE * m + ROW_SIZE \<le> j
          \<Longrightarrow> g' ! j = g ! j"
    by blast
  have stp: "fold ?step [0..<Suc m] (Inr f) = Inr g'"
    using fg rg by simp
  have rs: "0 < ROW_SIZE" by (simp add: ROW_SIZE_def)
  have nth: "g' ! j =
      (if j < ROW_SIZE * Suc m
       then f ! (ROW_SIZE * (j div ROW_SIZE) + nat (lvdsTranslationTable ! (j mod ROW_SIZE)))
       else f ! j)" if jl: "j < length f" for j
  proof (cases "ROW_SIZE * m \<le> j \<and> j < ROW_SIZE * m + ROW_SIZE")
    case True
    then obtain i where i: "j = ROW_SIZE * m + i" "i < ROW_SIZE"
      by (metis add.commute add_less_cancel_left le_Suc_ex)
    have jd: "j div ROW_SIZE = m" "j mod ROW_SIZE = i"
      using i rs by simp_all
    let ?src = "ROW_SIZE * m + nat (lvdsTranslationTable ! i)"
    have src: "?src < length f" "\<not> ?src < ROW_SIZE * m"
      using lvdsTranslationTable_range(2)[OF i(2)] fit by simp_all
    have "g' ! j = g ! ?src"
      unfolding i(1) by (rule inrow[OF i(2)])
    also have "\<dots> = f ! ?src"
      using ih[OF src(1)] src(2) by simp
    finally show ?thesis using True jd by simp
  next
    case False
    then have out: "j < ROW_SIZE * m \<or> ROW_SIZE * m + ROW_SIZE \<le> j" by auto
    have "g' ! j = g ! j"
      using outrow[OF _ out] jl len by simp
    then show ?thesis using ih[OF jl] False by auto
  qed
  show ?case
  proof (rule exI[of _ g'], intro conjI allI impI)
    show "fold ?step [0..<Suc m] (Inr f) = Inr g'" by (rule stp)
    show "length g' = length f" using len len' by simp
  next
    fix j assume "j < length f"
    then show "g' ! j =
      (if j < ROW_SIZE * Suc m
       then f ! (ROW_SIZE * (j div ROW_SIZE) + nat (lvdsTranslationTable ! (j mod ROW_SIZE)))
       else f ! j)" by (rule nth)
  qed
qed

lemma lvdsFrameSpec_length:
  "length (lvdsFrameSpec f) = length f"
  by (simp add: lvdsFrameSpec_def)

lemma lvdsFrameSpec_nth:
  assumes "r < length f div ROW_SIZE" and "i < ROW_SIZE"
  shows "lvdsFrameSpec f ! (r * ROW_SIZE + i) = f ! (r * ROW_SIZE + nat (lvdsTranslationTable ! i))"
proof -
  let ?m = "length f div ROW_SIZE"
  have le: "ROW_SIZE * ?m \<le> length f" by simp
  have "r * ROW_SIZE + i < ROW_SIZE * Suc r" using assms(2) by simp
  also have "\<dots> \<le> ROW_SIZE * ?m" using assms(1) by (simp only: mult_le_mono2 Suc_leI)
  finally have lt: "r * ROW_SIZE + i < ROW_SIZE * ?m" .
  have jl: "r * ROW_SIZE + i < length f" by (rule less_le_trans[OF lt le])
  have rs: "0 < ROW_SIZE" by (simp add: ROW_SIZE_def)
  have d: "(r * ROW_SIZE + i) div ROW_SIZE = r" "(r * ROW_SIZE + i) mod ROW_SIZE = i"
    using assms(2) rs by simp_all
  from jl lt d show ?thesis
    by (simp add: lvdsFrameSpec_def mult.commute)
qed

lemma reorderForLvds_spec:
  assumes "length frame = unat (cells_per_frame cfg)"
    and "unat (cells_per_frame cfg) < 2147485696"
  shows "reorderForLvds cfg frame = Inr (lvdsFrameSpec frame)"
proof -
  let ?step = "\<lambda>row result. case result of Inl e \<Rightarrow> Inl e | Inr frame \<Rightarrow> reorderRow frame row"
  let ?m = "unat (cells_per_frame cfg) div ROW_SIZE"
  have le: "ROW_SIZE * ?m \<le> length frame"
    using assms(1) by simp
  have mb: "?m \<le> 1048576"
    using assms(2) by (simp add: ROW_SIZE_def)
  from reorder_fold[OF le mb] obtain g where fg: "fold ?step [0..<?m] (Inr frame) = Inr g"
    and len: "length g = length frame"
    and nth: "\<And>j. j < length frame \<Longrightarrow> g ! j =
      (if j < ROW_SIZE * ?m
       then frame ! (ROW_SIZE * (j div ROW_SIZE) + nat (lvdsTranslationTable ! (j mod ROW_SIZE)))
       else frame ! j)"
    by blast
  have "g = lvdsFrameSpec frame"
  proof (rule nth_equalityI)
    show "length g = length (lvdsFrameSpec frame)"
      using len by (simp add: lvdsFrameSpec_length)
  next
    fix j assume "j < length g"
    then have jl: "j < length frame" using len by simp
    from nth[OF jl] jl assms(1) show "g ! j = lvdsFrameSpec frame ! j"
      by (simp add: lvdsFrameSpec_def)
  qed
  with fg show ?thesis
    by (simp add: reorderForLvds_def Let_def)
qed

lemma fold_reorder_failed:
  "fold (\<lambda>row result. case result of Inl e \<Rightarrow> Inl e | Inr frame \<Rightarrow> reorderRow frame row)
     rows (Inl e) = Inl e"
  by (induction rows) simp_all

lemma upt_split_at:
  "k < m \<Longrightarrow> [0..<m] = [0..<k] @ k # [Suc k..<m]"
  using upt_add_eq_append[of 0 k "m - k"] upt_conv_Cons[of k m] by simp

lemma reorderForLvds_overflow:
  assumes "length frame = unat (cells_per_frame cfg)"
    and "2147485696 \<le> unat (cells_per_frame cfg)"
  shows "reorderForLvds cfg frame = Inl SignedOverflow"
proof -
  let ?step = "\<lambda>row result. case result of Inl e \<Rightarrow> Inl e | Inr frame \<Rightarrow> reorderRow frame row"
  let ?m = "unat (cells_per_frame cfg) div ROW_SIZE"
  define K :: nat where "K = 1048576"
  have km: "K < ?m"
    using assms(2) by (simp add: K_def ROW_SIZE_def)
  have le: "ROW_SIZE * K \<le> length frame"
    using assms by (simp add: K_def ROW_SIZE_def)
  have kb: "K \<le> 1048576" by (simp add: K_def)
  from reorder_fold[OF le kb] obtain g where fg: "fold ?step [0..<K] (Inr frame) = Inr g"
    by blast
  have ov: "reorderRow g K = Inl SignedOverflow"
    by (simp add: reorderRow_def K_def ROW_SIZE_def)
  have "fold ?step [0..<?m] (Inr frame)
      = fold ?step [Suc K..<?m] (?step K (fold ?step [0..<K] (Inr frame)))"
    unfolding upt_split_at[OF km] by simp
  also have "\<dots> = fold ?step [Suc K..<?m] (Inl SignedOverflow)"
    using fg ov by simp
  also have "\<dots> = Inl SignedOverflow"
    by (rule fold_reorder_failed)
  finally show ?thesis
    by (simp add: reorderForLvds_def Let_def)
qed

lemma find_upt_unique:
  assumes "k < n" "P k" "\<And>j. j < n \<Longrightarrow> P j \<Longrightarrow> j = k"
  shows "find P [0..<n] = Some k"
proof -
  have "\<exists>i<length [0..<n]. P ([0..<n] ! i) \<and> k = [0..<n] ! i \<and> (\<forall>j<i. \<not> P ([0..<n] ! j))"
  proof (intro exI conjI allI impI)
    show "k < length [0..<n]" using assms(1) by simp
    show "P ([0..<n] ! k)" using assms(1,2) by simp
    show "k = [0..<n] ! k" using assms(1) by simp
  next
    fix j assume jk: "j < k"
    then have "j < n" using assms(1) by simp
    with assms(3)[of j] jk show "\<not> P ([0..<n] ! j)" by auto
  qed
  then show ?thesis by (simp only: find_Some_iff)
qed

lemma findLvdsCellOffset_inverse:
  assumes "r < ROW_SIZE"
  shows "findLvdsCellOffset (int r) = Inr (int (lvdsInverse r))"
proof -
  from assms have r: "r < 2048" by (simp add: ROW_SIZE_def)
  have inv1: "lvdsInverse r < ROW_SIZE"
    using lvdsEntry_inverse(1)[OF r] by (simp add: ROW_SIZE_def)
  have inv2: "lvdsTranslationTable ! lvdsInverse r = int r"
    unfolding lvdsTranslationTable_nth[OF inv1] by (rule lvdsEntry_inverse(2)[OF r])
  have uniq: "j = lvdsInverse r" if "j < ROW_SIZE" "lvdsTranslationTable ! j = int r" for j
  proof -
    from that(2) have "lvdsEntry j = int r"
      unfolding lvdsTranslationTable_nth[OF that(1)] .
    moreover from that(1) have "j < 2048" by (simp add: ROW_SIZE_def)
    ultimately show ?thesis using lvdsInverse_entry(3)[of j] by simp
  qed
  have "find (\<lambda>i. lvdsTranslationTable ! i = int r) [0..<ROW_SIZE] = Some (lvdsInverse r)"
    using find_upt_unique[of "lvdsInverse r" ROW_SIZE "\<lambda>i. lvdsTranslationTable ! i = int r"]
      inv1 inv2 uniq by blast
  then show ?thesis by (simp only: findLvdsCellOffset_def option.case)
qed

text \<open>
  C5, as the code has it. The row offset \<open>ROW_SIZE * row\<close> is an \<open>int\<close>, so the
  transform is defined for frames of at most \<open>2^20\<close> rows, that is for
  \<open>cells_per_frame < 2^31 + 2048\<close>. For a frame buffer of \<open>cells_per_frame\<close> bytes,
  \<open>cells_per_frame\<close> such a multiple of 2048, \<open>reorderForLvds\<close> returns, keeps the
  length and transforms each row on its own: the output cell at \<open>r * 2048 + i\<close> is the
  input cell at \<open>r * 2048 + table[i]\<close>, for every row \<open>r\<close> and every \<open>i\<close> in
  \<open>[0, 2048)\<close>; and two input frames that agree on row \<open>r\<close> give outputs that agree on
  row \<open>r\<close>, whatever their other rows hold.
\<close>

theorem C5_reorder_row_by_row:
  assumes "length frame = unat (cells_per_frame cfg)"
    and "unat (cells_per_frame cfg) mod ROW_SIZE = 0"
    and "unat (cells_per_frame cfg) < 2147485696"
  shows "\<exists>lvds.
      reorderForLvds cfg frame = Inr lvds
    \<and> length lvds = length frame
    \<and> (\<forall>r<length frame div ROW_SIZE. \<forall>i<ROW_SIZE.
          lvds ! (r * ROW_SIZE + i) = frame ! (r * ROW_SIZE + nat (lvdsTranslationTable ! i)))
    \<and> (\<forall>r<length frame div ROW_SIZE. \<forall>other.
          length other = length frame
          \<and> (\<forall>i<ROW_SIZE. other ! (r * ROW_SIZE + i) = frame ! (r * ROW_SIZE + i))
          \<longrightarrow> (\<exists>lvdsOther. reorderForLvds cfg other = Inr lvdsOther
                \<and> (\<forall>i<ROW_SIZE. lvdsOther ! (r * ROW_SIZE + i) = lvds ! (r * ROW_SIZE + i))))"
proof (rule exI[of _ "lvdsFrameSpec frame"], intro conjI allI impI)
  show "reorderForLvds cfg frame = Inr (lvdsFrameSpec frame)"
    by (rule reorderForLvds_spec[OF assms(1,3)])
  show "length (lvdsFrameSpec frame) = length frame"
    by (rule lvdsFrameSpec_length)
next
  fix r i assume "r < length frame div ROW_SIZE" "i < ROW_SIZE"
  then show "lvdsFrameSpec frame ! (r * ROW_SIZE + i)
      = frame ! (r * ROW_SIZE + nat (lvdsTranslationTable ! i))"
    by (rule lvdsFrameSpec_nth)
next
  fix r other
  assume r: "r < length frame div ROW_SIZE"
    and o: "length other = length frame
      \<and> (\<forall>i<ROW_SIZE. other ! (r * ROW_SIZE + i) = frame ! (r * ROW_SIZE + i))"
  from o assms(1) have lo: "length other = unat (cells_per_frame cfg)" by simp
  from r o have r': "r < length other div ROW_SIZE" by simp
  have "lvdsFrameSpec other ! (r * ROW_SIZE + i) = lvdsFrameSpec frame ! (r * ROW_SIZE + i)"
    if i: "i < ROW_SIZE" for i
  proof -
    have "lvdsFrameSpec other ! (r * ROW_SIZE + i)
        = other ! (r * ROW_SIZE + nat (lvdsTranslationTable ! i))"
      by (rule lvdsFrameSpec_nth[OF r' i])
    also have "\<dots> = frame ! (r * ROW_SIZE + nat (lvdsTranslationTable ! i))"
      using o lvdsTranslationTable_range(2)[OF i] by blast
    also have "\<dots> = lvdsFrameSpec frame ! (r * ROW_SIZE + i)"
      by (rule lvdsFrameSpec_nth[OF r i, symmetric])
    finally show ?thesis .
  qed
  with reorderForLvds_spec[OF lo assms(3)]
  show "\<exists>lvdsOther. reorderForLvds cfg other = Inr lvdsOther
      \<and> (\<forall>i<ROW_SIZE. lvdsOther ! (r * ROW_SIZE + i) = lvdsFrameSpec frame ! (r * ROW_SIZE + i))"
    by blast
qed

theorem C5_reorder_witness:
  "length (map (\<lambda>k. of_nat (k div 16)) [0..<4096] :: u8 list)
      = unat (cells_per_frame (shippedConfig\<lparr> cells_per_frame := 4096 \<rparr>))
   \<and> unat (cells_per_frame (shippedConfig\<lparr> cells_per_frame := 4096 \<rparr>)) mod ROW_SIZE = 0
   \<and> unat (cells_per_frame (shippedConfig\<lparr> cells_per_frame := 4096 \<rparr>)) < 2147485696
   \<and> (\<exists>lvds. reorderForLvds (shippedConfig\<lparr> cells_per_frame := 4096 \<rparr>)
                 (map (\<lambda>k. of_nat (k div 16)) [0..<4096]) = Inr lvds
        \<and> length lvds = 4096
        \<and> lvds ! 0 = 31 \<and> lvds ! 63 = 0 \<and> lvds ! 2048 = 159 \<and> lvds ! 2111 = 128
        \<and> (\<exists>lvdsOther.
              reorderForLvds (shippedConfig\<lparr> cells_per_frame := 4096 \<rparr>)
                 (map (\<lambda>k. if k < 2048 then 0 else of_nat (k div 16)) [0..<4096]) = Inr lvdsOther
            \<and> lvdsOther ! 2048 = lvds ! 2048 \<and> lvdsOther ! 2111 = lvds ! 2111))"
proof -
  let ?cfg = "shippedConfig\<lparr> cells_per_frame := 4096 \<rparr>"
  let ?f = "map (\<lambda>k. of_nat (k div 16)) [0..<4096] :: u8 list"
  let ?o = "map (\<lambda>k. if k < 2048 then 0 else of_nat (k div 16)) [0..<4096] :: u8 list"
  have h1: "length ?f = unat (cells_per_frame ?cfg)"
    by (simp del: upt_rec_numeral)
  have h2: "unat (cells_per_frame ?cfg) mod ROW_SIZE = 0"
    by (simp add: ROW_SIZE_def)
  have h3: "unat (cells_per_frame ?cfg) < 2147485696"
    by simp
  have rws: "0 < length ?f div ROW_SIZE" "1 < length ?f div ROW_SIZE"
    by (simp_all add: ROW_SIZE_def del: upt_rec_numeral)
  have i0: "0 < ROW_SIZE" "63 < ROW_SIZE" by (simp_all add: ROW_SIZE_def)
  have agree: "length ?o = length ?f
      \<and> (\<forall>i<ROW_SIZE. ?o ! (1 * ROW_SIZE + i) = ?f ! (1 * ROW_SIZE + i))"
    by (simp add: ROW_SIZE_def del: upt_rec_numeral)
  from C5_reorder_row_by_row[OF h1 h2 h3] obtain lvds where
    ret: "reorderForLvds ?cfg ?f = Inr lvds"
    and len: "length lvds = length ?f"
    and row: "\<forall>r<length ?f div ROW_SIZE. \<forall>i<ROW_SIZE.
          lvds ! (r * ROW_SIZE + i) = ?f ! (r * ROW_SIZE + nat (lvdsTranslationTable ! i))"
    and ind: "\<forall>r<length ?f div ROW_SIZE. \<forall>other.
          length other = length ?f
          \<and> (\<forall>i<ROW_SIZE. other ! (r * ROW_SIZE + i) = ?f ! (r * ROW_SIZE + i))
          \<longrightarrow> (\<exists>lvdsOther. reorderForLvds ?cfg other = Inr lvdsOther
                \<and> (\<forall>i<ROW_SIZE. lvdsOther ! (r * ROW_SIZE + i) = lvds ! (r * ROW_SIZE + i)))"
    by blast
  from row rws i0 have
    a: "lvds ! (0 * ROW_SIZE + 0) = ?f ! (0 * ROW_SIZE + nat (lvdsTranslationTable ! 0))"
    and b: "lvds ! (0 * ROW_SIZE + 63) = ?f ! (0 * ROW_SIZE + nat (lvdsTranslationTable ! 63))"
    and c: "lvds ! (1 * ROW_SIZE + 0) = ?f ! (1 * ROW_SIZE + nat (lvdsTranslationTable ! 0))"
    and d: "lvds ! (1 * ROW_SIZE + 63) = ?f ! (1 * ROW_SIZE + nat (lvdsTranslationTable ! 63))"
    by blast+
  have t0: "lvdsTranslationTable ! 0 = 504" "lvdsTranslationTable ! 63 = 0"
    by (simp_all add: lvdsTranslationTable_nth[OF i0(1)] lvdsTranslationTable_nth[OF i0(2)] lvdsEntry_def)
  have fv: "?f ! 504 = 31" "?f ! 0 = 0" "?f ! 2552 = 159" "?f ! 2048 = 128"
    by (simp_all del: upt_rec_numeral)
  from a b c d t0 fv have v: "lvds ! 0 = 31" "lvds ! 63 = 0" "lvds ! 2048 = 159" "lvds ! 2111 = 128"
    by (simp_all add: ROW_SIZE_def)
  from len have l: "length lvds = 4096" by (simp del: upt_rec_numeral)
  from ind rws(2) agree obtain lvdsOther where
    ro: "reorderForLvds ?cfg ?o = Inr lvdsOther"
    and same: "\<forall>i<ROW_SIZE. lvdsOther ! (1 * ROW_SIZE + i) = lvds ! (1 * ROW_SIZE + i)"
    by blast
  from same i0 have "lvdsOther ! (1 * ROW_SIZE + 0) = lvds ! (1 * ROW_SIZE + 0)"
    "lvdsOther ! (1 * ROW_SIZE + 63) = lvds ! (1 * ROW_SIZE + 63)"
    by blast+
  then have s: "lvdsOther ! 2048 = lvds ! 2048" "lvdsOther ! 2111 = lvds ! 2111"
    by (simp_all add: ROW_SIZE_def)
  from h1 h2 h3 ret l v ro s show ?thesis by blast
qed

text \<open>
  C5 as stated fails for a frame of \<open>2^31 + 2048\<close> bytes, whose length is a multiple of
  2048 that the \<open>uint32_t\<close> \<open>cells_per_frame\<close> can hold. Its row \<open>2^20\<close> has the offset
  \<open>2048 * 2^20 = 2^31\<close>, one more than \<open>INT_MAX\<close>: \<open>reorderForLvds\<close> has no defined
  result there.
\<close>

theorem C5_row_offset_overflows:
  "length (replicate 2147485696 (0 :: u8))
      = unat (cells_per_frame (shippedConfig\<lparr> cells_per_frame := 2147485696 \<rparr>))
   \<and> unat (cells_per_frame (shippedConfig\<lparr> cells_per_frame := 2147485696 \<rparr>)) mod ROW_SIZE = 0
   \<and> reorderForLvds (shippedConfig\<lparr> cells_per_frame := 2147485696 \<rparr>) (replicate 2147485696 0)
       = Inl SignedOverflow"
proof -
  let ?cfg = "shippedConfig\<lparr> cells_per_frame := 2147485696 \<rparr>"
  have h1: "length (replicate 2147485696 (0 :: u8)) = unat (cells_per_frame ?cfg)"
    by simp
  have h2: "2147485696 \<le> unat (cells_per_frame ?cfg)"
    by simp
  have h3: "unat (cells_per_frame ?cfg) mod ROW_SIZE = 0"
    by (simp add: ROW_SIZE_def)
  from h1 h3 reorderForLvds_overflow[OF h1 h2] show ?thesis by blast
qed

text \<open>
  C4. For every raw in-row offset \<open>r\<close> in \<open>[0, 2048)\<close>, \<open>findLvdsCellOffset r\<close>
  returns an offset \<open>j\<close> in \<open>[0, 2048)\<close> (never the internal-invariant error) with
  \<open>table[j] = r\<close>. Consequently, for a row buffer (\<open>ROW_SIZE\<close> bytes, transformed as
  a frame of one row), \<open>reorderForLvds\<close> returns a row whose position \<open>j\<close> holds the
  value the raw row held at offset \<open>r\<close>. The same holds in each row of a longer frame,
  as far as the transform is defined: for a frame of \<open>cells_per_frame < 2^31 + 2048\<close>
  bytes, whose row offsets fit the \<open>int\<close> they are computed in.
\<close>

theorem C4_inverse_lookup_round_trip:
  "\<forall>r\<in>{0..<ROW_SIZE}. \<exists>j<ROW_SIZE.
      findLvdsCellOffset (int r) = Inr (int j)
    \<and> lvdsTranslationTable ! j = int r
    \<and> (\<forall>cfg rawRow.
          unat (cells_per_frame cfg) = ROW_SIZE \<and> length rawRow = ROW_SIZE
          \<longrightarrow> (\<exists>lvdsRow. reorderForLvds cfg rawRow = Inr lvdsRow
                \<and> length lvdsRow = ROW_SIZE \<and> lvdsRow ! j = rawRow ! r))
    \<and> (\<forall>cfg frame row.
          length frame = unat (cells_per_frame cfg) \<and> unat (cells_per_frame cfg) < 2147485696
          \<and> row < unat (cells_per_frame cfg) div ROW_SIZE
          \<longrightarrow> (\<exists>lvds. reorderForLvds cfg frame = Inr lvds
                \<and> lvds ! (row * ROW_SIZE + j) = frame ! (row * ROW_SIZE + r)))"
proof
  fix r assume "r \<in> {0..<ROW_SIZE}"
  then have r: "r < ROW_SIZE" by simp
  then have r': "r < 2048" by (simp add: ROW_SIZE_def)
  let ?j = "lvdsInverse r"
  have j: "?j < ROW_SIZE" using lvdsEntry_inverse(1)[OF r'] by (simp add: ROW_SIZE_def)
  have tj: "lvdsTranslationTable ! ?j = int r"
    unfolding lvdsTranslationTable_nth[OF j] by (rule lvdsEntry_inverse(2)[OF r'])
  have frm: "\<exists>lvds. reorderForLvds cfg frame = Inr lvds
        \<and> lvds ! (row * ROW_SIZE + ?j) = frame ! (row * ROW_SIZE + r)"
    if "length frame = unat (cells_per_frame cfg) \<and> unat (cells_per_frame cfg) < 2147485696
          \<and> row < unat (cells_per_frame cfg) div ROW_SIZE"
    for cfg frame row
  proof -
    from that have l: "length frame = unat (cells_per_frame cfg)"
      and b: "unat (cells_per_frame cfg) < 2147485696"
      and rw: "row < length frame div ROW_SIZE"
      by simp_all
    have "lvdsFrameSpec frame ! (row * ROW_SIZE + ?j) = frame ! (row * ROW_SIZE + r)"
      using lvdsFrameSpec_nth[OF rw j] tj by simp
    with reorderForLvds_spec[OF l b] show ?thesis by blast
  qed
  have one: "\<exists>lvdsRow. reorderForLvds cfg rawRow = Inr lvdsRow
        \<and> length lvdsRow = ROW_SIZE \<and> lvdsRow ! ?j = rawRow ! r"
    if "unat (cells_per_frame cfg) = ROW_SIZE \<and> length rawRow = ROW_SIZE"
    for cfg rawRow
  proof -
    from that have l: "length rawRow = unat (cells_per_frame cfg)"
      and n: "length rawRow = ROW_SIZE" by simp_all
    from that have b: "unat (cells_per_frame cfg) < 2147485696"
      by (simp add: ROW_SIZE_def)
    have rw: "0 < length rawRow div ROW_SIZE" using n by (simp add: ROW_SIZE_def)
    have "lvdsFrameSpec rawRow ! (0 * ROW_SIZE + ?j) = rawRow ! (0 * ROW_SIZE + nat (lvdsTranslationTable ! ?j))"
      by (rule lvdsFrameSpec_nth[OF rw j])
    then have "lvdsFrameSpec rawRow ! ?j = rawRow ! r" using tj by simp
    with reorderForLvds_spec[OF l b] n show ?thesis
      by (simp add: lvdsFrameSpec_length)
  qed
  show "\<exists>j<ROW_SIZE. findLvdsCellOffset (int r) = Inr (int j)
    \<and> lvdsTranslationTable ! j = int r
    \<and> (\<forall>cfg rawRow.
          unat (cells_per_frame cfg) = ROW_SIZE \<and> length rawRow = ROW_SIZE
          \<longrightarrow> (\<exists>lvdsRow. reorderForLvds cfg rawRow = Inr lvdsRow
                \<and> length lvdsRow = ROW_SIZE \<and> lvdsRow ! j = rawRow ! r))
    \<and> (\<forall>cfg frame row.
          length frame = unat (cells_per_frame cfg) \<and> unat (cells_per_frame cfg) < 2147485696
          \<and> row < unat (cells_per_frame cfg) div ROW_SIZE
          \<longrightarrow> (\<exists>lvds. reorderForLvds cfg frame = Inr lvds
                \<and> lvds ! (row * ROW_SIZE + j) = frame ! (row * ROW_SIZE + r)))"
  proof (rule exI[of _ ?j], intro conjI allI impI)
    show "?j < ROW_SIZE" by (rule j)
    show "findLvdsCellOffset (int r) = Inr (int ?j)" by (rule findLvdsCellOffset_inverse[OF r])
    show "lvdsTranslationTable ! ?j = int r" by (rule tj)
  next
    fix cfg :: config_t and rawRow :: "u8 list"
    assume "unat (cells_per_frame cfg) = ROW_SIZE \<and> length rawRow = ROW_SIZE"
    then show "\<exists>lvdsRow. reorderForLvds cfg rawRow = Inr lvdsRow
        \<and> length lvdsRow = ROW_SIZE \<and> lvdsRow ! ?j = rawRow ! r" by (rule one)
  next
    fix cfg :: config_t and frame :: "u8 list" and row :: nat
    assume "length frame = unat (cells_per_frame cfg) \<and> unat (cells_per_frame cfg) < 2147485696
          \<and> row < unat (cells_per_frame cfg) div ROW_SIZE"
    then show "\<exists>lvds. reorderForLvds cfg frame = Inr lvds
        \<and> lvds ! (row * ROW_SIZE + ?j) = frame ! (row * ROW_SIZE + r)" by (rule frm)
  qed
qed

theorem C4_inverse_lookup_witness:
  "(0::nat) \<in> {0..<ROW_SIZE}
   \<and> findLvdsCellOffset 0 = Inr 63
   \<and> lvdsTranslationTable ! 63 = 0
   \<and> unat (cells_per_frame shippedConfig) = ROW_SIZE
   \<and> length (map of_nat [0..<ROW_SIZE] :: u8 list) = ROW_SIZE
   \<and> (\<exists>lvdsRow. reorderForLvds shippedConfig (map of_nat [0..<ROW_SIZE]) = Inr lvdsRow
        \<and> length lvdsRow = ROW_SIZE \<and> lvdsRow ! 63 = 0)
   \<and> length (map (\<lambda>k. of_nat (k div ROW_SIZE)) [0..<4096] :: u8 list)
       = unat (cells_per_frame (shippedConfig\<lparr> cells_per_frame := 4096 \<rparr>))
   \<and> unat (cells_per_frame (shippedConfig\<lparr> cells_per_frame := 4096 \<rparr>)) < 2147485696
   \<and> 1 < unat (cells_per_frame (shippedConfig\<lparr> cells_per_frame := 4096 \<rparr>)) div ROW_SIZE
   \<and> (\<exists>lvds. reorderForLvds (shippedConfig\<lparr> cells_per_frame := 4096 \<rparr>)
                 (map (\<lambda>k. of_nat (k div ROW_SIZE)) [0..<4096]) = Inr lvds
        \<and> lvds ! 2111 = 1)"
proof -
  let ?f = "map of_nat [0..<ROW_SIZE] :: u8 list"
  let ?cfg2 = "shippedConfig\<lparr> cells_per_frame := 4096 \<rparr>"
  let ?f2 = "map (\<lambda>k. of_nat (k div ROW_SIZE)) [0..<4096] :: u8 list"
  have m: "(0::nat) \<in> {0..<ROW_SIZE}" by (simp add: ROW_SIZE_def)
  have h1: "unat (cells_per_frame shippedConfig) = ROW_SIZE"
    by (simp add: shippedConfig_def ROW_SIZE_def)
  have h2: "length ?f = ROW_SIZE" by simp
  have g1: "length ?f2 = unat (cells_per_frame ?cfg2)"
    by (simp del: upt_rec_numeral)
  have g2: "unat (cells_per_frame ?cfg2) < 2147485696" by simp
  have g3: "1 < unat (cells_per_frame ?cfg2) div ROW_SIZE" by (simp add: ROW_SIZE_def)
  from C4_inverse_lookup_round_trip m obtain j where j: "j < ROW_SIZE"
    "findLvdsCellOffset (int 0) = Inr (int j)" "lvdsTranslationTable ! j = int 0"
    and one: "\<And>cfg rawRow. unat (cells_per_frame cfg) = ROW_SIZE \<and> length rawRow = ROW_SIZE
          \<Longrightarrow> \<exists>lvdsRow. reorderForLvds cfg rawRow = Inr lvdsRow
                \<and> length lvdsRow = ROW_SIZE \<and> lvdsRow ! j = (rawRow :: u8 list) ! 0"
    and frm: "\<And>cfg frame row.
          length frame = unat (cells_per_frame cfg) \<and> unat (cells_per_frame cfg) < 2147485696
          \<and> row < unat (cells_per_frame cfg) div ROW_SIZE
          \<Longrightarrow> \<exists>lvds. reorderForLvds cfg frame = Inr lvds
                \<and> lvds ! (row * ROW_SIZE + j) = (frame :: u8 list) ! (row * ROW_SIZE + 0)"
    by blast
  have "lvdsEntry j = 0" using j(3) unfolding lvdsTranslationTable_nth[OF j(1)] by simp
  then have "lvdsInverse (nat (lvdsEntry j)) = 63" by (simp add: lvdsInverse_def)
  moreover have "j < 2048" using j(1) by (simp add: ROW_SIZE_def)
  ultimately have j63: "j = 63" using lvdsInverse_entry(3)[of j] by simp
  from one[of shippedConfig ?f] h1 h2 obtain lvdsRow where
    a: "reorderForLvds shippedConfig ?f = Inr lvdsRow" "length lvdsRow = ROW_SIZE"
      "lvdsRow ! j = ?f ! 0"
    by blast
  have f0: "?f ! 0 = 0" by (simp add: ROW_SIZE_def del: upt_rec_numeral)
  from frm[of ?f2 ?cfg2 1] g1 g2 g3 obtain lvds where
    b: "reorderForLvds ?cfg2 ?f2 = Inr lvds" "lvds ! (1 * ROW_SIZE + j) = ?f2 ! (1 * ROW_SIZE + 0)"
    by blast
  have f2: "?f2 ! (1 * ROW_SIZE + 0) = 1" by (simp add: ROW_SIZE_def del: upt_rec_numeral)
  from b(2) f2 have b2: "lvds ! 2111 = 1" unfolding j63 by (simp add: ROW_SIZE_def)
  from a f0 have a3: "lvdsRow ! 63 = 0" unfolding j63 by simp
  from j(2,3) have l: "findLvdsCellOffset 0 = Inr 63" "lvdsTranslationTable ! 63 = 0"
    unfolding j63 by simp_all
  from m l h1 h2 a(1,2) a3 g1 g2 g3 b(1) b2 show ?thesis by blast
qed

section \<open>Distribution records: resolution and validation\<close>

lemma sint_pos_uint:
  fixes x :: i32
  assumes "0 \<le> sint x"
  shows "uint x = sint x"
proof -
  have "sint x < 2 ^ 31" using sint_lt[of x] by simp
  then have "sint x < 2 ^ 32" by simp
  then have "take_bit 32 (sint x) = sint x"
    using assms by (simp add: take_bit_int_eq_self)
  then show ?thesis using uint_sint[of x] by simp
qed

lemma firstCell_check:
  fixes f :: i32 and cpf :: u32
  shows "(sint f < 1 \<or> cpf < f) \<longleftrightarrow> (sint f < 1 \<or> uint cpf < sint f)"
proof (cases "sint f < 1")
  case True
  then show ?thesis by simp
next
  case False
  then have "uint f = sint f" by (simp add: sint_pos_uint)
  then show ?thesis by (simp add: word_less_def)
qed

lemma appendFragments_known:
  "\<forall>n\<in>set names. fragment n \<noteq> None \<Longrightarrow> \<exists>out. appendFragments fragment names drcv = Inr out"
  by (induction names arbitrary: drcv) auto

lemma appendFragments_unknown:
  "find (\<lambda>n. fragment n = None) names = Some bad \<Longrightarrow>
   appendFragments fragment names drcv = Inl (UndefinedFragmentName bad)"
  by (induction names arbitrary: drcv) (auto split: if_splits)

lemma appendFragments_error:
  "appendFragments fragment names drcv = Inl e \<Longrightarrow>
   \<exists>bad. e = UndefinedFragmentName bad \<and> find (\<lambda>n. fragment n = None) names = Some bad"
  by (induction names arbitrary: drcv) (auto split: option.splits)

lemma loadDistributionLines_append:
  "loadDistributionLines cfg fragment pre dl0 = (None, dl1) \<Longrightarrow>
   loadDistributionLines cfg fragment (pre @ rest) dl0 = loadDistributionLines cfg fragment rest dl1"
  by (induction pre arbitrary: dl0) (auto split: sum.splits)

text \<open>
  C8, as the code has it. The first-cell check comes before the fragment names are
  looked at, so the unknown-fragment error is what a line raises only when its first
  cell is valid. For a line with \<open>1 \<le> firstCell \<le> cells_per_frame\<close> that lists a name
  absent from the fragment table: loading fails with \<open>Undefined fragment name\<close> naming
  the first absent name in listed order, and the distribution list is exactly what the
  lines before that line had made it (no entry for that line).
\<close>

theorem C8_unknown_fragment_rejected:
  assumes "1 \<le> sint (firstField ln)" "sint (firstField ln) \<le> uint (cells_per_frame cfg)"
    and "\<exists>n\<in>set (fragmentNames ln). fragment n = None"
    and "loadDistributionLines cfg fragment before dl0 = (None, dl1)"
  shows "\<exists>bad\<in>set (fragmentNames ln).
           fragment bad = None
         \<and> find (\<lambda>n. fragment n = None) (fragmentNames ln) = Some bad
         \<and> loadDistributionLine cfg fragment ln dl1 = Inl (UndefinedFragmentName bad)
         \<and> loadDistributionLines cfg fragment (before @ ln # after) dl0
             = (Some (UndefinedFragmentName bad), dl1)
         \<and> loadDistribution cfg fragment (Some (before @ ln # after)) dl0
             = (Some (UndefinedFragmentName bad), dl1)"
proof -
  from assms(3) obtain bad where bad: "find (\<lambda>n. fragment n = None) (fragmentNames ln) = Some bad"
    by (meson find_None_iff not_Some_eq)
  then have mem: "bad \<in> set (fragmentNames ln)" "fragment bad = None"
    by (auto simp: find_Some_iff)
  have ok: "\<not> (sint (firstField ln) < 1 \<or> cells_per_frame cfg < firstField ln)"
    unfolding firstCell_check using assms(1,2) by simp
  have line: "loadDistributionLine cfg fragment ln dl1 = Inl (UndefinedFragmentName bad)"
    using ok appendFragments_unknown[OF bad, of "[]"]
    by (simp add: loadDistributionLine_def Let_def)
  have "loadDistributionLines cfg fragment (before @ ln # after) dl0
      = loadDistributionLines cfg fragment (ln # after) dl1"
    by (rule loadDistributionLines_append[OF assms(4)])
  also have "\<dots> = (Some (UndefinedFragmentName bad), dl1)"
    using line by simp
  finally have lines: "loadDistributionLines cfg fragment (before @ ln # after) dl0
      = (Some (UndefinedFragmentName bad), dl1)" .
  then have "loadDistribution cfg fragment (Some (before @ ln # after)) dl0
      = (Some (UndefinedFragmentName bad), dl1)"
    by (simp add: loadDistribution_def)
  with mem bad line lines show ?thesis by blast
qed

theorem C8_unknown_fragment_witness:
  "1 \<le> sint (3 :: i32) \<and> sint (3 :: i32) \<le> uint (cells_per_frame shippedConfig)
   \<and> [''A'' \<mapsto> [1, 2 :: i32]] ''B'' = None
   \<and> loadDistributionLines shippedConfig [''A'' \<mapsto> [1, 2]]
         [\<lparr> firstField = 1, lastField = 0, stepField = 0, fragmentNames = [''A''] \<rparr>] []
       = (None, [\<lparr> first = 1, last_cell = 1, step = 1, cellValue = [1, 2] \<rparr>])
   \<and> loadDistributionLines shippedConfig [''A'' \<mapsto> [1, 2]]
         ([\<lparr> firstField = 1, lastField = 0, stepField = 0, fragmentNames = [''A''] \<rparr>]
          @ \<lparr> firstField = 3, lastField = 0, stepField = 0, fragmentNames = [''A'', ''B''] \<rparr>
          # []) []
       = (Some (UndefinedFragmentName ''B''),
          [\<lparr> first = 1, last_cell = 1, step = 1, cellValue = [1, 2] \<rparr>])"
proof -
  let ?frag = "[''A'' \<mapsto> [1, 2 :: i32]]"
  let ?l1 = "\<lparr> firstField = 1, lastField = 0, stepField = 0, fragmentNames = [''A''] \<rparr>"
  let ?ln = "\<lparr> firstField = 3, lastField = 0, stepField = 0, fragmentNames = [''A'', ''B''] \<rparr>"
  let ?dl1 = "[\<lparr> first = 1, last_cell = 1, step = 1, cellValue = [1, 2 :: u8] \<rparr>]"
  have h1: "1 \<le> sint (firstField ?ln)" by simp
  have h2: "sint (firstField ?ln) \<le> uint (cells_per_frame shippedConfig)"
    by (simp add: shippedConfig_def)
  have h3: "\<exists>n\<in>set (fragmentNames ?ln). ?frag n = None" by simp
  have h4: "loadDistributionLines shippedConfig ?frag [?l1] [] = (None, ?dl1)"
    by (simp add: loadDistributionLine_def shippedConfig_def)
  from C8_unknown_fragment_rejected[OF h1 h2 h3 h4, of "[]"] obtain bad where
    bad: "find (\<lambda>n. ?frag n = None) (fragmentNames ?ln) = Some bad"
    and res: "loadDistributionLines shippedConfig ?frag ([?l1] @ ?ln # []) []
             = (Some (UndefinedFragmentName bad), ?dl1)"
    by blast
  from bad have "bad = ''B''" by simp
  with res h1 h2 h4 show ?thesis by simp
qed

text \<open>
  C8 as stated fails for a line whose first cell is out of range: with the shipped
  configuration (2048 cells per frame), the line \<open>5000 $ nosuch\<close> is rejected with
  \<open>Invalid cell number 5000\<close>, which does not name the absent fragment.
\<close>

theorem C8_invalid_cell_reported_first:
  "Map.empty ''nosuch'' = (None :: i32 list option)
   \<and> loadDistributionLine shippedConfig Map.empty
        \<lparr> firstField = 5000, lastField = 0, stepField = 0, fragmentNames = [''nosuch''] \<rparr> []
       = Inl (InvalidCellNumber 5000)"
  by (simp add: loadDistributionLine_def shippedConfig_def)

text \<open>
  C9. For a parsed distribution line, \<open>Invalid cell number\<close> is thrown if and only if
  the parsed first cell is less than 1 or greater than \<open>cells_per_frame\<close>, and the error
  carries that number. When the first cell is in range, a record that is stored has
  \<open>last = first\<close> where \<open>last\<close> was parsed as 0, and \<open>step = 1\<close> where \<open>step\<close> was
  parsed as 0 (the parsed values otherwise); and a record is stored whenever every listed
  fragment name is known.
\<close>

theorem C9_first_cell_validation:
  "((\<exists>x. loadDistributionLine cfg fragment ln dl = Inl (InvalidCellNumber x))
      \<longleftrightarrow> (sint (firstField ln) < 1 \<or> uint (cells_per_frame cfg) < sint (firstField ln)))
   \<and> (\<forall>x. loadDistributionLine cfg fragment ln dl = Inl (InvalidCellNumber x) \<longrightarrow> x = firstField ln)
   \<and> (1 \<le> sint (firstField ln) \<and> sint (firstField ln) \<le> uint (cells_per_frame cfg) \<longrightarrow>
        (\<forall>dl'. loadDistributionLine cfg fragment ln dl = Inr dl' \<longrightarrow>
           (\<exists>drcv. dl' = dl @
              [\<lparr> first = firstField ln,
                 last_cell = (if lastField ln = 0 then firstField ln else lastField ln),
                 step = (if stepField ln = 0 then 1 else stepField ln),
                 cellValue = drcv \<rparr>]))
      \<and> ((\<forall>n\<in>set (fragmentNames ln). fragment n \<noteq> None) \<longrightarrow>
           (\<exists>dl'. loadDistributionLine cfg fragment ln dl = Inr dl')))"
proof -
  let ?bad = "sint (firstField ln) < 1 \<or> uint (cells_per_frame cfg) < sint (firstField ln)"
  let ?rec = "\<lambda>drcv. \<lparr> first = firstField ln,
                 last_cell = (if lastField ln = 0 then firstField ln else lastField ln),
                 step = (if stepField ln = 0 then 1 else stepField ln),
                 cellValue = drcv \<rparr>"
  have unfold: "loadDistributionLine cfg fragment ln dl =
      (if ?bad then Inl (InvalidCellNumber (firstField ln))
       else case appendFragments fragment (fragmentNames ln) [] of
              Inl e \<Rightarrow> Inl e
            | Inr drcv \<Rightarrow> Inr (dl @ [?rec drcv]))"
    unfolding loadDistributionLine_def Let_def firstCell_check ..
  have a: "loadDistributionLine cfg fragment ln dl = Inl (InvalidCellNumber (firstField ln))" if "?bad"
    unfolding unfold using that by (simp only: if_True)
  have b: "loadDistributionLine cfg fragment ln dl \<noteq> Inl (InvalidCellNumber x)" if nb: "\<not> ?bad" for x
  proof (cases "appendFragments fragment (fragmentNames ln) []")
    case (Inl e)
    from appendFragments_error[OF Inl] obtain bad where "e = UndefinedFragmentName bad" by blast
    then have "loadDistributionLine cfg fragment ln dl = Inl (UndefinedFragmentName bad)"
      unfolding unfold using nb Inl by (simp only: if_False sum.case)
    then show ?thesis by simp
  next
    case (Inr drcv)
    have "loadDistributionLine cfg fragment ln dl = Inr (dl @ [?rec drcv])"
      unfolding unfold using nb Inr by (simp only: if_False sum.case)
    then show ?thesis by simp
  qed
  have c: "x = firstField ln" if "loadDistributionLine cfg fragment ln dl = Inl (InvalidCellNumber x)" for x
  proof -
    from that b have "?bad" by blast
    from a[OF this] that show ?thesis by simp
  qed
  have d: "\<exists>drcv. dl' = dl @ [?rec drcv]"
    if st: "loadDistributionLine cfg fragment ln dl = Inr dl'" for dl'
  proof (cases "?bad")
    case True
    from a[OF True] st show ?thesis by simp
  next
    case False
    show ?thesis
    proof (cases "appendFragments fragment (fragmentNames ln) []")
      case (Inl e)
      have "loadDistributionLine cfg fragment ln dl = Inl e"
        unfolding unfold using False Inl by (simp only: if_False sum.case)
      with st show ?thesis by simp
    next
      case (Inr drcv)
      have "loadDistributionLine cfg fragment ln dl = Inr (dl @ [?rec drcv])"
        unfolding unfold using False Inr by (simp only: if_False sum.case)
      with st have "dl' = dl @ [?rec drcv]" by simp
      then show ?thesis by (rule exI)
    qed
  qed
  have e: "\<exists>dl'. loadDistributionLine cfg fragment ln dl = Inr dl'"
    if nb: "\<not> ?bad" and kn: "\<forall>n\<in>set (fragmentNames ln). fragment n \<noteq> None"
  proof -
    from appendFragments_known[OF kn, of "[]"] obtain out
      where out: "appendFragments fragment (fragmentNames ln) [] = Inr out" by blast
    have "loadDistributionLine cfg fragment ln dl = Inr (dl @ [?rec out])"
      unfolding unfold using nb out by (simp only: if_False sum.case)
    then show ?thesis by (rule exI)
  qed
  have nb_iff: "\<not> ?bad \<longleftrightarrow> 1 \<le> sint (firstField ln) \<and> sint (firstField ln) \<le> uint (cells_per_frame cfg)"
    by auto
  show ?thesis
  proof (intro conjI impI allI)
    show "(\<exists>x. loadDistributionLine cfg fragment ln dl = Inl (InvalidCellNumber x)) \<longleftrightarrow> ?bad"
      using a b by blast
  next
    fix x assume "loadDistributionLine cfg fragment ln dl = Inl (InvalidCellNumber x)"
    then show "x = firstField ln" by (rule c)
  next
    fix dl' assume "loadDistributionLine cfg fragment ln dl = Inr dl'"
    then show "\<exists>drcv. dl' = dl @ [?rec drcv]" by (rule d)
  next
    assume "1 \<le> sint (firstField ln) \<and> sint (firstField ln) \<le> uint (cells_per_frame cfg)"
      and "\<forall>n\<in>set (fragmentNames ln). fragment n \<noteq> None"
    then show "\<exists>dl'. loadDistributionLine cfg fragment ln dl = Inr dl'"
      using e nb_iff by blast
  qed
qed

theorem C9_first_cell_witness:
  "1 \<le> sint (3 :: i32) \<and> sint (3 :: i32) \<le> uint (cells_per_frame shippedConfig)
   \<and> [''A'' \<mapsto> [1, 2 :: i32]] ''A'' \<noteq> None
   \<and> (\<exists>drcv. loadDistributionLine shippedConfig [''A'' \<mapsto> [1, 2]]
          \<lparr> firstField = 3, lastField = 0, stepField = 0, fragmentNames = [''A''] \<rparr> []
        = Inr [\<lparr> first = 3, last_cell = 3, step = 1, cellValue = drcv \<rparr>])
   \<and> \<not> (\<exists>x. loadDistributionLine shippedConfig [''A'' \<mapsto> [1, 2]]
          \<lparr> firstField = 3, lastField = 0, stepField = 0, fragmentNames = [''A''] \<rparr> []
        = Inl (InvalidCellNumber x))
   \<and> (\<exists>x. loadDistributionLine shippedConfig [''A'' \<mapsto> [1, 2]]
          \<lparr> firstField = 2049, lastField = 0, stepField = 0, fragmentNames = [''A''] \<rparr> []
        = Inl (InvalidCellNumber x))"
proof -
  let ?frag = "[''A'' \<mapsto> [1, 2 :: i32]]"
  let ?ln = "\<lparr> firstField = 3, lastField = 0, stepField = 0, fragmentNames = [''A''] \<rparr>"
  let ?hi = "\<lparr> firstField = 2049, lastField = 0, stepField = 0, fragmentNames = [''A''] \<rparr>"
  have h1: "1 \<le> sint (firstField ?ln) \<and> sint (firstField ?ln) \<le> uint (cells_per_frame shippedConfig)"
    by (simp add: shippedConfig_def)
  have h2: "\<forall>n\<in>set (fragmentNames ?ln). ?frag n \<noteq> None" by simp
  have h3: "sint (firstField ?hi) < 1 \<or> uint (cells_per_frame shippedConfig) < sint (firstField ?hi)"
    by (simp add: shippedConfig_def)
  note c9 = C9_first_cell_validation[of shippedConfig ?frag ?ln "[]"]
  from c9 h1 h2 obtain dl' where dl': "loadDistributionLine shippedConfig ?frag ?ln [] = Inr dl'"
    by blast
  with c9 h1 obtain drcv where "dl' = [] @ [\<lparr> first = firstField ?ln,
                 last_cell = (if lastField ?ln = 0 then firstField ?ln else lastField ?ln),
                 step = (if stepField ?ln = 0 then 1 else stepField ?ln),
                 cellValue = drcv \<rparr>]"
    by blast
  with dl' have stored: "\<exists>drcv. loadDistributionLine shippedConfig ?frag ?ln []
       = Inr [\<lparr> first = 3, last_cell = 3, step = 1, cellValue = drcv \<rparr>]"
    by simp
  from c9 h1 have none: "\<not> (\<exists>x. loadDistributionLine shippedConfig ?frag ?ln [] = Inl (InvalidCellNumber x))"
    by simp
  from C9_first_cell_validation[of shippedConfig ?frag ?hi "[]"] h3
  have hi: "\<exists>x. loadDistributionLine shippedConfig ?frag ?hi [] = Inl (InvalidCellNumber x)"
    by blast
  from h1 stored none hi show ?thesis by simp
qed

section \<open>Capacity planning and validation\<close>

lemma findLongestSequence_fold:
  "\<forall>dr\<in>set dl. length (cellValue dr) < 2 ^ 32 \<Longrightarrow>
   unat (fold (\<lambda>distRec longestLength.
             if unat (longestLength :: u32) < length (cellValue distRec)
             then of_nat (length (cellValue distRec)) else longestLength) dl acc)
   = fold max (map (\<lambda>dr. length (cellValue dr)) dl) (unat acc)"
proof (induction dl arbitrary: acc)
  case Nil
  then show ?case by simp
next
  case (Cons dr dl)
  from Cons.prems have small: "length (cellValue dr) < 2 ^ 32"
    and rest: "\<forall>dr\<in>set dl. length (cellValue dr) < 2 ^ 32" by simp_all
  have u: "unat (of_nat (length (cellValue dr)) :: u32) = length (cellValue dr)"
    using small by (simp add: unat_of_nat)
  show ?case
    using Cons.IH[OF rest] u by (simp add: max_def)
qed

lemma findLongestSequence_Max:
  assumes "\<forall>dr\<in>set dl. length (cellValue dr) < 2 ^ 32"
  shows "unat (findLongestSequence dl) = Max (insert 0 ((\<lambda>dr. length (cellValue dr)) ` set dl))"
proof -
  have "unat (findLongestSequence dl) = fold max (map (\<lambda>dr. length (cellValue dr)) dl) 0"
    unfolding findLongestSequence_def using findLongestSequence_fold[OF assms, of 0] by simp
  also have "\<dots> = Max (set (0 # map (\<lambda>dr. length (cellValue dr)) dl))"
    by (simp only: Max.set_eq_fold)
  finally show ?thesis by simp
qed

lemma example_longest:
  "findLongestSequence [\<lparr> first = 1, last_cell = 1, step = 1, cellValue = replicate 4583 0 \<rparr>] = 4583"
  by (simp add: findLongestSequence_def)

lemma example_verify:
  "verifyDistributionIsValid shippedConfig
     [\<lparr> first = 1, last_cell = 1, step = 1, cellValue = replicate 4583 0 \<rparr>]
   = Inr \<lparr> longestSequence = 4583, frameGroupLength = 4585, frameGroupCount = 2,
           maxFrames = 20971520, totalReqdFrames = 9170, totalContigReqd = 18780160 \<rparr>"
  unfolding verifyDistributionIsValid_def example_longest
  by (simp add: shippedConfig_def ROW_SIZE_def Let_def)

lemma verifyDistributionIsValid_unfold:
  "verifyDistributionIsValid cfg dl =
     (if cells_per_frame cfg mod of_nat ROW_SIZE \<noteq> 0 then Inl NotMultipleOfRowSize
      else if cells_per_frame cfg = 0 \<or> data_frames cfg = 0 then Inl DivideByZero
      else if maxFrames (plannedCapacity cfg dl) < totalReqdFrames (plannedCapacity cfg dl)
           then Inl (WontFit (plannedCapacity cfg dl))
           else Inr (plannedCapacity cfg dl))"
  by (simp add: verifyDistributionIsValid_def plannedCapacity_def Let_def)

lemma unat_ucast_u64:
  "unat (ucast (x :: u32) :: u64) = unat x"
proof -
  have "unat x < 2 ^ 32" using unsigned_less[of x, where ?'a = nat] by simp
  then have "unat x < 2 ^ 64" by simp
  then show ?thesis by (simp add: unsigned_ucast_eq take_bit_nat_eq_self)
qed

lemma unat_ucast_u32:
  "unat (ucast (x :: u64) :: u32) = unat x mod 2 ^ 32"
  by (simp add: unsigned_ucast_eq take_bit_eq_mod)

lemma plannedCapacity_values:
  "unat (frameGroupLength (plannedCapacity cfg dl))
     = (length (diagnostic_values cfg) + unat (data_frames cfg)) mod 2 ^ 32"
  "unat (frameGroupCount (plannedCapacity cfg dl))
     = (unat (longestSequence (plannedCapacity cfg dl)) div unat (data_frames cfg) + 1) mod 2 ^ 32"
  "unat (totalReqdFrames (plannedCapacity cfg dl))
     = (unat (frameGroupCount (plannedCapacity cfg dl))
        * unat (frameGroupLength (plannedCapacity cfg dl))) mod 2 ^ 32"
  "unat (maxFrames (plannedCapacity cfg dl))
     = (unat (contig_size cfg) div unat (cells_per_frame cfg)) mod 2 ^ 32"
proof -
  show "unat (frameGroupLength (plannedCapacity cfg dl))
     = (length (diagnostic_values cfg) + unat (data_frames cfg)) mod 2 ^ 32"
    by (simp add: plannedCapacity_def unat_word_ariths unat_of_nat mod_add_left_eq)
  show "unat (frameGroupCount (plannedCapacity cfg dl))
     = (unat (longestSequence (plannedCapacity cfg dl)) div unat (data_frames cfg) + 1) mod 2 ^ 32"
    by (simp add: plannedCapacity_def unat_word_ariths unat_div mod_Suc_eq)
  show "unat (totalReqdFrames (plannedCapacity cfg dl))
     = (unat (frameGroupCount (plannedCapacity cfg dl))
        * unat (frameGroupLength (plannedCapacity cfg dl))) mod 2 ^ 32"
    by (simp add: plannedCapacity_def unat_word_ariths)
  show "unat (maxFrames (plannedCapacity cfg dl))
     = (unat (contig_size cfg) div unat (cells_per_frame cfg)) mod 2 ^ 32"
    by (simp add: plannedCapacity_def unat_ucast_u32 unat_ucast_u64 unat_div)
qed

lemma totalContigReqd_exact:
  "unat (totalContigReqd (plannedCapacity cfg dl))
     = unat (totalReqdFrames (plannedCapacity cfg dl)) * unat (cells_per_frame cfg)"
proof -
  let ?t = "totalReqdFrames (plannedCapacity cfg dl)"
  have a: "unat ?t < 2 ^ 32"
    using unsigned_less[of ?t, where ?'a = nat] by simp
  have b: "unat (cells_per_frame cfg) < 2 ^ 32"
    using unsigned_less[of "cells_per_frame cfg", where ?'a = nat] by simp
  have "unat ?t * unat (cells_per_frame cfg) < 2 ^ 32 * 2 ^ 32"
    using a b by (meson mult_strict_mono' zero_le)
  then have lt: "unat ?t * unat (cells_per_frame cfg) < 2 ^ 64" by simp
  have "totalContigReqd (plannedCapacity cfg dl) = (ucast ?t :: u64) * ucast (cells_per_frame cfg)"
    by (simp add: plannedCapacity_def)
  then have "unat (totalContigReqd (plannedCapacity cfg dl))
      = (unat (ucast ?t :: u64) * unat (ucast (cells_per_frame cfg) :: u64)) mod 2 ^ 64"
    by (simp add: unat_word_ariths)
  also have "\<dots> = (unat ?t * unat (cells_per_frame cfg)) mod 2 ^ 64"
    by (simp only: unat_ucast_u64)
  also have "\<dots> = unat ?t * unat (cells_per_frame cfg)"
    using lt by simp
  finally show ?thesis .
qed


lemma frameGroupCount_zero_iff:
  assumes "data_frames cfg \<noteq> 0"
  shows "frameGroupCount (plannedCapacity cfg dl) = 0
     \<longleftrightarrow> unat (longestSequence (plannedCapacity cfg dl)) = 2 ^ 32 - 1 \<and> data_frames cfg = 1"
proof -
  define L where "L = unat (findLongestSequence dl)"
  define d where "d = unat (data_frames cfg)"
  have L: "L < 4294967296"
    unfolding L_def using unsigned_less[of "findLongestSequence dl", where ?'a = nat] by simp
  have d: "0 < d" unfolding d_def using assms by (simp add: unat_gt_0)
  have q: "L div d \<le> L" by simp
  have "frameGroupCount (plannedCapacity cfg dl) = 0
      \<longleftrightarrow> unat (frameGroupCount (plannedCapacity cfg dl)) = 0"
    by (simp add: unat_eq_zero)
  also have "\<dots> \<longleftrightarrow> (L div d + 1) mod 4294967296 = 0"
    unfolding plannedCapacity_values(2) L_def d_def by (simp add: plannedCapacity_def)
  also have "\<dots> \<longleftrightarrow> L div d = 4294967295"
  proof
    assume z: "(L div d + 1) mod 4294967296 = 0"
    have le: "L div d + 1 \<le> 4294967296" using q L by linarith
    show "L div d = 4294967295"
    proof (cases "L div d + 1 = 4294967296")
      case True
      then show ?thesis by linarith
    next
      case False
      with le have "L div d + 1 < 4294967296" by linarith
      then have "(L div d + 1) mod 4294967296 = L div d + 1" by (rule mod_less)
      with z show ?thesis by simp
    qed
  next
    assume "L div d = 4294967295"
    then show "(L div d + 1) mod 4294967296 = 0" by simp
  qed
  also have "\<dots> \<longleftrightarrow> L = 4294967295 \<and> d = 1"
  proof
    assume e: "L div d = 4294967295"
    then have Lmax: "L = 4294967295" using q L by linarith
    have "d = 1"
    proof (rule ccontr)
      assume "d \<noteq> 1"
      then have "2 \<le> d" using d by linarith
      then have "L div d \<le> L div 2" by (simp add: div_le_mono2)
      then show False using e Lmax by simp
    qed
    with Lmax show "L = 4294967295 \<and> d = 1" by simp
  next
    assume "L = 4294967295 \<and> d = 1"
    then show "L div d = 4294967295" by simp
  qed
  also have "\<dots> \<longleftrightarrow> unat (longestSequence (plannedCapacity cfg dl)) = 2 ^ 32 - 1 \<and> data_frames cfg = 1"
    by (simp add: plannedCapacity_def L_def d_def word_unat_eq_iff[of "data_frames cfg" 1])
  finally show ?thesis .
qed

text \<open>
  C3, as the code has it. \<open>verifyDistributionIsValid\<close> reaches the arithmetic only
  when \<open>cells_per_frame\<close> is a non-zero multiple of \<open>ROW_SIZE\<close> and \<open>data_frames\<close> is
  non-zero (otherwise it exits, or divides by zero). Then, every values sequence being
  shorter than \<open>2^32\<close>: \<open>longestSequence\<close> is the maximum sequence length (0 for an
  empty list); the 32-bit quantities are the stated formulas modulo \<open>2^32\<close>
  (\<open>frameGroupLength\<close> = diagnostic values + \<open>data_frames\<close>; \<open>frameGroupCount\<close> =
  \<open>longestSequence / data_frames + 1\<close> with truncating division, which is 0 exactly when
  \<open>longestSequence = 2^32 - 1\<close> and \<open>data_frames = 1\<close> and at least 1 otherwise;
  \<open>totalFrames = frameGroupCount * frameGroupLength\<close>); and \<open>totalBytes\<close> is the exact
  product \<open>totalFrames * cells_per_frame\<close>, computed in 64 bits. The statistics are the
  same whether the function then returns or rejects the distribution as too large. For
  the shipped configuration (\<open>data_frames = 4582\<close>, three diagnostic values) and a
  longest sequence of 4583 it yields \<open>frameGroupCount = 2\<close>, \<open>frameGroupLength = 4585\<close>,
  \<open>totalFrames = 9170\<close>.
\<close>

theorem C3_capacity_arithmetic:
  "(\<forall>cfg dl.
      cells_per_frame cfg mod of_nat ROW_SIZE = 0 \<and> cells_per_frame cfg \<noteq> 0 \<and> data_frames cfg \<noteq> 0
      \<and> (\<forall>dr\<in>set dl. length (cellValue dr) < 2 ^ 32)
      \<longrightarrow> (\<exists>st.
            (verifyDistributionIsValid cfg dl = Inr st
               \<or> verifyDistributionIsValid cfg dl = Inl (WontFit st))
          \<and> unat (longestSequence st) = Max (insert 0 ((\<lambda>dr. length (cellValue dr)) ` set dl))
          \<and> unat (frameGroupLength st)
              = (length (diagnostic_values cfg) + unat (data_frames cfg)) mod 2 ^ 32
          \<and> unat (frameGroupCount st)
              = (unat (longestSequence st) div unat (data_frames cfg) + 1) mod 2 ^ 32
          \<and> (frameGroupCount st = 0
               \<longleftrightarrow> unat (longestSequence st) = 2 ^ 32 - 1 \<and> data_frames cfg = 1)
          \<and> unat (totalReqdFrames st)
              = (unat (frameGroupCount st) * unat (frameGroupLength st)) mod 2 ^ 32
          \<and> unat (totalContigReqd st) = unat (totalReqdFrames st) * unat (cells_per_frame cfg)))
   \<and> verifyDistributionIsValid shippedConfig
         [\<lparr> first = 1, last_cell = 1, step = 1, cellValue = replicate 4583 0 \<rparr>]
       = Inr \<lparr> longestSequence = 4583, frameGroupLength = 4585, frameGroupCount = 2,
               maxFrames = 20971520, totalReqdFrames = 9170, totalContigReqd = 18780160 \<rparr>"
proof (intro conjI allI impI)
  fix cfg :: config_t and dl :: "distribution_t list"
  assume h: "cells_per_frame cfg mod of_nat ROW_SIZE = 0 \<and> cells_per_frame cfg \<noteq> 0 \<and> data_frames cfg \<noteq> 0
      \<and> (\<forall>dr\<in>set dl. length (cellValue dr) < 2 ^ 32)"
  let ?st = "plannedCapacity cfg dl"
  have res: "verifyDistributionIsValid cfg dl = Inr ?st
      \<or> verifyDistributionIsValid cfg dl = Inl (WontFit ?st)"
    using h by (simp add: verifyDistributionIsValid_unfold)
  have lng: "unat (longestSequence ?st) = Max (insert 0 ((\<lambda>dr. length (cellValue dr)) ` set dl))"
    using h findLongestSequence_Max[of dl] by (simp add: plannedCapacity_def)
  from h have dz: "data_frames cfg \<noteq> 0" by blast
  from res lng plannedCapacity_values(1,2,3)[of cfg dl] frameGroupCount_zero_iff[OF dz, of dl]
    totalContigReqd_exact[of cfg dl]
  show "\<exists>st.
            (verifyDistributionIsValid cfg dl = Inr st
               \<or> verifyDistributionIsValid cfg dl = Inl (WontFit st))
          \<and> unat (longestSequence st) = Max (insert 0 ((\<lambda>dr. length (cellValue dr)) ` set dl))
          \<and> unat (frameGroupLength st)
              = (length (diagnostic_values cfg) + unat (data_frames cfg)) mod 2 ^ 32
          \<and> unat (frameGroupCount st)
              = (unat (longestSequence st) div unat (data_frames cfg) + 1) mod 2 ^ 32
          \<and> (frameGroupCount st = 0
               \<longleftrightarrow> unat (longestSequence st) = 2 ^ 32 - 1 \<and> data_frames cfg = 1)
          \<and> unat (totalReqdFrames st)
              = (unat (frameGroupCount st) * unat (frameGroupLength st)) mod 2 ^ 32
          \<and> unat (totalContigReqd st) = unat (totalReqdFrames st) * unat (cells_per_frame cfg)"
    by (intro exI[of _ ?st]) blast
next
  show "verifyDistributionIsValid shippedConfig
         [\<lparr> first = 1, last_cell = 1, step = 1, cellValue = replicate 4583 0 \<rparr>]
       = Inr \<lparr> longestSequence = 4583, frameGroupLength = 4585, frameGroupCount = 2,
               maxFrames = 20971520, totalReqdFrames = 9170, totalContigReqd = 18780160 \<rparr>"
    by (rule example_verify)
qed

theorem C3_capacity_witness:
  "cells_per_frame shippedConfig mod of_nat ROW_SIZE = 0 \<and> cells_per_frame shippedConfig \<noteq> 0
   \<and> data_frames shippedConfig \<noteq> 0
   \<and> length (replicate 4583 (0::u8)) < 2 ^ 32
   \<and> (\<exists>st. (verifyDistributionIsValid shippedConfig
                 [\<lparr> first = 1, last_cell = 1, step = 1, cellValue = replicate 4583 0 \<rparr>] = Inr st
               \<or> verifyDistributionIsValid shippedConfig
                 [\<lparr> first = 1, last_cell = 1, step = 1, cellValue = replicate 4583 0 \<rparr>]
                   = Inl (WontFit st))
          \<and> unat (longestSequence st) = 4583
          \<and> unat (frameGroupLength st) = 4585
          \<and> unat (frameGroupCount st) = 2
          \<and> unat (totalReqdFrames st) = 9170
          \<and> unat (totalContigReqd st) = 18780160)"
proof -
  let ?dl = "[\<lparr> first = 1, last_cell = 1, step = 1, cellValue = replicate 4583 (0::u8) \<rparr>]"
  have h: "cells_per_frame shippedConfig mod of_nat ROW_SIZE = 0 \<and> cells_per_frame shippedConfig \<noteq> 0
      \<and> data_frames shippedConfig \<noteq> 0 \<and> (\<forall>dr\<in>set ?dl. length (cellValue dr) < 2 ^ 32)"
    by (simp add: shippedConfig_def ROW_SIZE_def)
  from C3_capacity_arithmetic[THEN conjunct1, rule_format, OF h] obtain st where
    st: "verifyDistributionIsValid shippedConfig ?dl = Inr st
          \<or> verifyDistributionIsValid shippedConfig ?dl = Inl (WontFit st)"
      "unat (longestSequence st) = Max (insert 0 ((\<lambda>dr. length (cellValue dr)) ` set ?dl))"
      "unat (frameGroupLength st)
          = (length (diagnostic_values shippedConfig) + unat (data_frames shippedConfig)) mod 2 ^ 32"
      "unat (frameGroupCount st)
          = (unat (longestSequence st) div unat (data_frames shippedConfig) + 1) mod 2 ^ 32"
      "unat (totalReqdFrames st)
          = (unat (frameGroupCount st) * unat (frameGroupLength st)) mod 2 ^ 32"
      "unat (totalContigReqd st) = unat (totalReqdFrames st) * unat (cells_per_frame shippedConfig)"
    by blast
  have l: "unat (longestSequence st) = 4583" using st(2) by simp
  have g: "unat (frameGroupLength st) = 4585" using st(3) by (simp add: shippedConfig_def)
  have c: "unat (frameGroupCount st) = 2" using st(4) l by (simp add: shippedConfig_def)
  have t: "unat (totalReqdFrames st) = 9170" using st(5) c g by simp
  have b: "unat (totalContigReqd st) = 18780160" using st(6) t by (simp add: shippedConfig_def)
  from h st(1) l g c t b show ?thesis by auto
qed

text \<open>
  C3 as stated fails in three ways. With \<open>data_frames = 0\<close> the quotient
  \<open>longestSequence / data_frames\<close> is a division by zero and no statistics are computed.
  With \<open>data_frames = 4294967295\<close> and the three shipped diagnostic values the 32-bit
  sum wraps: \<open>frameGroupLength\<close> is 2, not 4294967298, and the distribution is accepted
  as needing 2 frames. With \<open>data_frames = 1\<close> and a sequence of \<open>2^32 - 1\<close> values
  \<open>longestSequence / data_frames + 1\<close> wraps: \<open>frameGroupCount\<close> is 0, not at least 1.
\<close>

theorem C3_division_by_zero_and_wrap:
  "verifyDistributionIsValid (shippedConfig\<lparr> data_frames := 0 \<rparr>) [] = Inl DivideByZero
   \<and> verifyDistributionIsValid (shippedConfig\<lparr> data_frames := 4294967295 \<rparr>) []
       = Inr \<lparr> longestSequence = 0, frameGroupLength = 2, frameGroupCount = 1,
               maxFrames = 20971520, totalReqdFrames = 2, totalContigReqd = 4096 \<rparr>
   \<and> verifyDistributionIsValid (shippedConfig\<lparr> data_frames := 1 \<rparr>)
         [\<lparr> first = 1, last_cell = 1, step = 1, cellValue = replicate 4294967295 0 \<rparr>]
       = Inr \<lparr> longestSequence = 4294967295, frameGroupLength = 4, frameGroupCount = 0,
               maxFrames = 20971520, totalReqdFrames = 0, totalContigReqd = 0 \<rparr>"
  by (simp add: verifyDistributionIsValid_def findLongestSequence_def shippedConfig_def
      ROW_SIZE_def Let_def)

text \<open>
  C7, as the code has it. \<open>verifyDistributionIsValid\<close> rejects a \<open>cells_per_frame\<close>
  that is not a multiple of \<open>ROW_SIZE\<close> first, whatever the other values are. For a
  non-zero multiple and a non-zero \<open>data_frames\<close> it rejects the distribution when
  \<open>totalFrames > maxFrames\<close>, both 32-bit (\<open>maxFrames\<close> is \<open>contig_size /
  cells_per_frame\<close> narrowed to 32 bits, \<open>totalFrames\<close> the 32-bit product of C3), and
  otherwise returns the statistics with \<open>frameGroupCount\<close>. When it fails, \<open>execute\<close>
  stops with that failure and the files are untouched: \<open>writeOutputFile\<close> is not
  reached, so no frame is built. When it returns, \<open>execute\<close> goes on to
  \<open>writeOutputFile\<close> with the returned \<open>frameGroupCount\<close>.
\<close>

theorem C7_validation_precedes_writing:
  "(cells_per_frame cfg mod of_nat ROW_SIZE \<noteq> 0
      \<longrightarrow> verifyDistributionIsValid cfg dl = Inl NotMultipleOfRowSize)
   \<and> (cells_per_frame cfg mod of_nat ROW_SIZE = 0 \<and> cells_per_frame cfg \<noteq> 0 \<and> data_frames cfg \<noteq> 0
      \<longrightarrow> (\<exists>st.
             unat (maxFrames st)
               = (unat (contig_size cfg) div unat (cells_per_frame cfg)) mod 2 ^ 32
           \<and> frameGroupCount st = findLongestSequence dl div data_frames cfg + 1
           \<and> totalReqdFrames st
               = frameGroupCount st * (of_nat (length (diagnostic_values cfg)) + data_frames cfg)
           \<and> verifyDistributionIsValid cfg dl
               = (if maxFrames st < totalReqdFrames st then Inl (WontFit st) else Inr st)))
   \<and> (\<forall>e dl'. loadDistribution cfg fragment distributionFile [] = (None, dl')
                 \<and> verifyDistributionIsValid cfg dl' = Inl e
      \<longrightarrow> execute cfg nolvds fragment distributionFile fs = Some (Some e, fs))
   \<and> (\<forall>st dl'. loadDistribution cfg fragment distributionFile [] = (None, dl')
                 \<and> verifyDistributionIsValid cfg dl' = Inr st
      \<longrightarrow> execute cfg nolvds fragment distributionFile fs
            = writeOutputFile cfg nolvds dl' (frameGroupCount st) fs)"
proof (intro conjI allI impI)
  assume "cells_per_frame cfg mod of_nat ROW_SIZE \<noteq> 0"
  then show "verifyDistributionIsValid cfg dl = Inl NotMultipleOfRowSize"
    by (simp add: verifyDistributionIsValid_unfold)
next
  assume h: "cells_per_frame cfg mod of_nat ROW_SIZE = 0 \<and> cells_per_frame cfg \<noteq> 0 \<and> data_frames cfg \<noteq> 0"
  let ?st = "plannedCapacity cfg dl"
  have v: "verifyDistributionIsValid cfg dl
      = (if maxFrames ?st < totalReqdFrames ?st then Inl (WontFit ?st) else Inr ?st)"
    using h by (simp add: verifyDistributionIsValid_unfold)
  have c: "frameGroupCount ?st = findLongestSequence dl div data_frames cfg + 1"
    and t: "totalReqdFrames ?st
        = frameGroupCount ?st * (of_nat (length (diagnostic_values cfg)) + data_frames cfg)"
    by (simp_all add: plannedCapacity_def)
  from plannedCapacity_values(4)[of cfg dl] c t v
  show "\<exists>st.
             unat (maxFrames st)
               = (unat (contig_size cfg) div unat (cells_per_frame cfg)) mod 2 ^ 32
           \<and> frameGroupCount st = findLongestSequence dl div data_frames cfg + 1
           \<and> totalReqdFrames st
               = frameGroupCount st * (of_nat (length (diagnostic_values cfg)) + data_frames cfg)
           \<and> verifyDistributionIsValid cfg dl
               = (if maxFrames st < totalReqdFrames st then Inl (WontFit st) else Inr st)"
    by (intro exI[of _ ?st]) blast
next
  fix e dl'
  assume "loadDistribution cfg fragment distributionFile [] = (None, dl')
      \<and> verifyDistributionIsValid cfg dl' = Inl e"
  then show "execute cfg nolvds fragment distributionFile fs = Some (Some e, fs)"
    by (simp add: execute_def)
next
  fix st dl'
  assume "loadDistribution cfg fragment distributionFile [] = (None, dl')
      \<and> verifyDistributionIsValid cfg dl' = Inr st"
  then show "execute cfg nolvds fragment distributionFile fs
      = writeOutputFile cfg nolvds dl' (frameGroupCount st) fs"
    by (simp add: execute_def)
qed

theorem C7_validation_witness:
  "cells_per_frame (shippedConfig\<lparr> cells_per_frame := 2000 \<rparr>) mod of_nat ROW_SIZE \<noteq> 0
   \<and> verifyDistributionIsValid (shippedConfig\<lparr> cells_per_frame := 2000 \<rparr>) []
       = Inl NotMultipleOfRowSize
   \<and> loadDistribution (shippedConfig\<lparr> cells_per_frame := 2000 \<rparr>) Map.empty (Some []) []
       = (None, [])
   \<and> execute (shippedConfig\<lparr> cells_per_frame := 2000 \<rparr>) False Map.empty (Some [])
         \<lparr> contents = Map.empty, unwritable = {} \<rparr>
       = Some (Some NotMultipleOfRowSize, \<lparr> contents = Map.empty, unwritable = {} \<rparr>)"
proof -
  let ?cfg = "shippedConfig\<lparr> cells_per_frame := 2000 \<rparr>"
  let ?fs = "\<lparr> contents = Map.empty, unwritable = {} \<rparr> :: filesystem"
  have h1: "cells_per_frame ?cfg mod of_nat ROW_SIZE \<noteq> 0"
    by (simp add: shippedConfig_def ROW_SIZE_def)
  have h2: "loadDistribution ?cfg Map.empty (Some []) [] = (None, [])"
    by (simp add: loadDistribution_def)
  note c7 = C7_validation_precedes_writing[of ?cfg "[]" Map.empty "Some []" False ?fs]
  from c7 h1 have v: "verifyDistributionIsValid ?cfg [] = Inl NotMultipleOfRowSize"
    by blast
  from c7 h2 v have "execute ?cfg False Map.empty (Some []) ?fs = Some (Some NotMultipleOfRowSize, ?fs)"
    by blast
  with h1 h2 v show ?thesis by blast
qed

text \<open>
  C7 as stated fails in two ways. \<open>cells_per_frame = 0\<close> is a multiple of \<open>ROW_SIZE\<close>,
  passes the first check and makes \<open>contig_size / cells_per_frame\<close> a division by zero:
  the function neither rejects the capacity nor returns. And with a contiguous buffer of
  \<open>2^43\<close> bytes, \<open>contig_size / cells_per_frame\<close> is \<open>2^32\<close>, which the 32-bit
  \<open>maxFrames\<close> holds as 0: the 4585 frames required are rejected although they fit.
\<close>

theorem C7_zero_divisor_and_narrowing:
  "cells_per_frame (shippedConfig\<lparr> cells_per_frame := 0 \<rparr>) mod of_nat ROW_SIZE = 0
   \<and> verifyDistributionIsValid (shippedConfig\<lparr> cells_per_frame := 0 \<rparr>) [] = Inl DivideByZero
   \<and> unat (contig_size (shippedConfig\<lparr> contig_size := 8796093022208 \<rparr>))
        div unat (cells_per_frame (shippedConfig\<lparr> contig_size := 8796093022208 \<rparr>))
      = 4294967296
   \<and> verifyDistributionIsValid (shippedConfig\<lparr> contig_size := 8796093022208 \<rparr>) []
       = Inl (WontFit \<lparr> longestSequence = 0, frameGroupLength = 4585, frameGroupCount = 1,
               maxFrames = 0, totalReqdFrames = 4585, totalContigReqd = 9390080 \<rparr>)"
  by (simp add: verifyDistributionIsValid_def findLongestSequence_def shippedConfig_def
      ROW_SIZE_def Let_def)

section \<open>The frame builder\<close>

lemma unat_nonneg_i32:
  fixes x :: i32
  assumes "0 \<le> sint x"
  shows "unat x = nat (sint x)" "unat x < 2 ^ 31"
proof -
  have u: "uint x = sint x" by (rule sint_pos_uint[OF assms])
  have n: "unat x = nat (uint x)" by simp
  show "unat x = nat (sint x)" unfolding n u ..
  have "sint x < 2147483648" using sint_lt[of x] by simp
  then have "nat (sint x) < 2147483648" using assms by linarith
  then have "nat (sint x) < 2 ^ 31" by simp
  then show "unat x < 2 ^ 31" unfolding n u .
qed

lemma populateCells_spec:
  fixes cellNumber lastCell stepSize :: u32
  assumes "unat lastCell \<le> length frame" "unat lastCell < 2 ^ 31"
    "0 < unat stepSize" "unat stepSize < 2 ^ 31"
  shows "populateCells cellNumber lastCell stepSize v frame =
     Some (Inr (map (\<lambda>j. if unat cellNumber \<le> j \<and> j < unat lastCell
                              \<and> (j - unat cellNumber) mod unat stepSize = 0
                           then v else frame ! j) [0..<length frame]))"
  using assms(1)
proof (induction "unat lastCell - unat cellNumber" arbitrary: cellNumber frame rule: less_induct)
  case less
  let ?c = "unat cellNumber" and ?L = "unat lastCell" and ?s = "unat stepSize"
  show ?case
  proof (cases "cellNumber < lastCell")
    case False
    then have ge: "?L \<le> ?c" by (simp add: word_less_nat_alt)
    have "map (\<lambda>j. if ?c \<le> j \<and> j < ?L \<and> (j - ?c) mod ?s = 0 then v else frame ! j)
            [0..<length frame] = map (\<lambda>j. frame ! j) [0..<length frame]"
      using ge by (intro map_cong) auto
    also have "\<dots> = frame" by (rule map_nth)
    finally show ?thesis
      using False by (subst populateCells.simps) simp
  next
    case True
    then have lt: "?c < ?L" by (simp add: word_less_nat_alt)
    then have inb: "?c < length frame" using less.prems by simp
    have nowrap: "?c + ?s < 2 ^ 32" using lt assms(2,4) by simp
    then have nxt: "unat (cellNumber + stepSize) = ?c + ?s"
      by (simp add: unat_add_lem[THEN iffD1])
    let ?f1 = "frame[?c := v]"
    have dec: "?L - unat (cellNumber + stepSize) < ?L - ?c"
      using lt assms(3) nxt by simp
    have len1: "?L \<le> length ?f1" using less.prems by simp
    have ih: "populateCells (cellNumber + stepSize) lastCell stepSize v ?f1 =
       Some (Inr (map (\<lambda>j. if ?c + ?s \<le> j \<and> j < ?L \<and> (j - (?c + ?s)) mod ?s = 0
                           then v else ?f1 ! j) [0..<length ?f1]))"
      using less.hyps[OF dec len1] unfolding nxt .
    have eq: "(if ?c + ?s \<le> j \<and> j < ?L \<and> (j - (?c + ?s)) mod ?s = 0 then v else ?f1 ! j)
        = (if ?c \<le> j \<and> j < ?L \<and> (j - ?c) mod ?s = 0 then v else frame ! j)"
      if j: "j < length frame" for j
    proof -
      consider "j < ?c" | "j = ?c" | "?c < j" "j < ?c + ?s" | "?c + ?s \<le> j" by linarith
      then show ?thesis
      proof cases
        case 1
        then show ?thesis by simp
      next
        case 2
        then show ?thesis using lt inb assms(3) by simp
      next
        case 3
        then have "(j - ?c) mod ?s = j - ?c" by simp
        with 3 show ?thesis by simp
      next
        case 4
        then have "(j - ?c) mod ?s = (j - ?c - ?s) mod ?s"
          by (simp add: le_mod_geq)
        also have "j - ?c - ?s = j - (?c + ?s)" by simp
        finally show ?thesis using 4 assms(3) by simp
      qed
    qed
    have "map (\<lambda>j. if ?c + ?s \<le> j \<and> j < ?L \<and> (j - (?c + ?s)) mod ?s = 0
                           then v else ?f1 ! j) [0..<length ?f1]
        = map (\<lambda>j. if ?c \<le> j \<and> j < ?L \<and> (j - ?c) mod ?s = 0 then v else frame ! j)
            [0..<length frame]"
      using eq by (intro map_cong) simp_all
    with ih show ?thesis
      using True inb by (subst populateCells.simps) simp
  qed
qed


lemma recordInRange_words:
  assumes "recordInRange cfg dr"
  shows "unat (first dr - 1) = nat (sint (first dr) - 1)"
    and "unat (last_cell dr) = nat (sint (last_cell dr))"
    and "unat (step dr) = nat (sint (step dr))"
    and "unat (last_cell dr) \<le> unat (cells_per_frame cfg)"
    and "unat (last_cell dr) < 2 ^ 31"
    and "0 < unat (step dr)" and "unat (step dr) < 2 ^ 31"
proof -
  from assms have f: "1 \<le> sint (first dr)" and l: "0 \<le> sint (last_cell dr)"
    and lc: "sint (last_cell dr) \<le> uint (cells_per_frame cfg)" and s: "1 \<le> sint (step dr)"
    by (simp_all add: recordInRange_def)
  from f have f0: "0 \<le> sint (first dr)" by linarith
  from s have s0: "0 \<le> sint (step dr)" by linarith
  have fz: "first dr \<noteq> 0"
  proof
    assume "first dr = 0"
    then have "sint (first dr) = 0" by simp
    with f show False by linarith
  qed
  have "unat (first dr - 1) = unat (first dr) - 1" using fz by (rule unat_minus_one)
  also have "\<dots> = nat (sint (first dr)) - 1" by (simp only: unat_nonneg_i32(1)[OF f0])
  also have "\<dots> = nat (sint (first dr) - 1)" using f0 by linarith
  finally show "unat (first dr - 1) = nat (sint (first dr) - 1)" .
  show "unat (last_cell dr) = nat (sint (last_cell dr))" by (rule unat_nonneg_i32(1)[OF l])
  show "unat (step dr) = nat (sint (step dr))" by (rule unat_nonneg_i32(1)[OF s0])
  have "uint (cells_per_frame cfg) = int (unat (cells_per_frame cfg))" by simp
  with lc have "nat (sint (last_cell dr)) \<le> unat (cells_per_frame cfg)" by linarith
  then show "unat (last_cell dr) \<le> unat (cells_per_frame cfg)"
    by (simp only: unat_nonneg_i32(1)[OF l])
  show "unat (last_cell dr) < 2 ^ 31" by (rule unat_nonneg_i32(2)[OF l])
  have "0 < nat (sint (step dr))" using s by linarith
  then show "0 < unat (step dr)" by (simp only: unat_nonneg_i32(1)[OF s0])
  show "unat (step dr) < 2 ^ 31" by (rule unat_nonneg_i32(2)[OF s0])
qed

lemma distributeRecord_spec:
  assumes "recordInRange cfg dr" "length frame = unat (cells_per_frame cfg)"
  shows "distributeRecord n dr frame =
     Some (Inr (map (\<lambda>j. if unat n < length (cellValue dr) \<and> recordCovers dr j
                           then cellValue dr ! unat n else frame ! j) [0..<length frame]))"
proof (cases "unat n < length (cellValue dr)")
  case False
  then have "distributeRecord n dr frame = Some (Inr frame)"
    by (simp add: distributeRecord_def)
  moreover have "map (\<lambda>j. if unat n < length (cellValue dr) \<and> recordCovers dr j
                           then cellValue dr ! unat n else frame ! j) [0..<length frame]
      = map (\<lambda>j. frame ! j) [0..<length frame]"
    using False by simp
  ultimately show ?thesis by (simp only: map_nth)
next
  case True
  note w = recordInRange_words[OF assms(1)]
  have le: "unat (last_cell dr) \<le> length frame" using w(4) assms(2) by simp
  have cov: "recordCovers dr j \<longleftrightarrow>
      (unat (first dr - 1) \<le> j \<and> j < unat (last_cell dr)
       \<and> (j - unat (first dr - 1)) mod unat (step dr) = 0)" for j
    unfolding recordCovers_def w(1,2,3) using assms(1) by (auto simp: recordInRange_def)
  have nm: "sint (first dr) \<noteq> - 2147483648"
    using assms(1) by (simp add: recordInRange_def)
  show ?thesis
    using True nm populateCells_spec[OF le w(5,6,7), of "first dr - 1" "cellValue dr ! unat n"]
    by (simp add: distributeRecord_def cov)
qed

lemma distributeRecords_spec:
  assumes "\<forall>dr\<in>set dl. recordInRange cfg dr" "length frame = unat (cells_per_frame cfg)"
  shows "distributeRecords n dl frame =
     Some (Inr (map (\<lambda>j.
        case filter (\<lambda>dr. unat n < length (cellValue dr) \<and> recordCovers dr j) dl of
          [] \<Rightarrow> frame ! j
        | rs \<Rightarrow> cellValue (last rs) ! unat n) [0..<length frame]))"
  using assms
proof (induction dl arbitrary: frame)
  case Nil
  have "map (\<lambda>j. frame ! j) [0..<length frame] = frame" by (rule map_nth)
  then show ?case by simp
next
  case (Cons dr dl)
  let ?P = "\<lambda>j dr. unat n < length (cellValue dr) \<and> recordCovers dr j"
  let ?f1 = "map (\<lambda>j. if ?P j dr then cellValue dr ! unat n else frame ! j) [0..<length frame]"
  from Cons.prems have v: "recordInRange cfg dr" and vs: "\<forall>dr\<in>set dl. recordInRange cfg dr"
    by simp_all
  have one: "distributeRecord n dr frame = Some (Inr ?f1)"
    by (rule distributeRecord_spec[OF v Cons.prems(2)])
  have len1: "length ?f1 = unat (cells_per_frame cfg)" using Cons.prems(2) by simp
  have rest: "distributeRecords n dl ?f1 =
     Some (Inr (map (\<lambda>j. case filter (?P j) dl of [] \<Rightarrow> ?f1 ! j
        | rs \<Rightarrow> cellValue (last rs) ! unat n) [0..<length ?f1]))"
    by (rule Cons.IH[OF vs len1])
  have eq: "(case filter (?P j) dl of [] \<Rightarrow> ?f1 ! j | rs \<Rightarrow> cellValue (last rs) ! unat n)
      = (case filter (?P j) (dr # dl) of [] \<Rightarrow> frame ! j | rs \<Rightarrow> cellValue (last rs) ! unat n)"
    if "j < length frame" for j
    using that by (cases "filter (?P j) dl") simp_all
  have "map (\<lambda>j. case filter (?P j) dl of [] \<Rightarrow> ?f1 ! j
        | rs \<Rightarrow> cellValue (last rs) ! unat n) [0..<length ?f1]
      = map (\<lambda>j. case filter (?P j) (dr # dl) of [] \<Rightarrow> frame ! j
        | rs \<Rightarrow> cellValue (last rs) ! unat n) [0..<length frame]"
    using eq by (intro map_cong) simp_all
  with one rest show ?case by simp
qed

lemma buildDataFrame_spec:
  assumes "\<forall>dr\<in>set dl. recordInRange cfg dr"
  shows "buildDataFrame cfg dl n
     = Some (Inr (map (frameCellSpec cfg dl n) [0..<unat (cells_per_frame cfg)]))"
proof -
  let ?q = "replicate (unat (cells_per_frame cfg)) (quiescent cfg)"
  have len: "length ?q = unat (cells_per_frame cfg)" by simp
  have "map (\<lambda>j. case filter (\<lambda>dr. unat n < length (cellValue dr) \<and> recordCovers dr j) dl of
          [] \<Rightarrow> ?q ! j | rs \<Rightarrow> cellValue (last rs) ! unat n) [0..<length ?q]
      = map (frameCellSpec cfg dl n) [0..<unat (cells_per_frame cfg)]"
    by (intro map_cong) (simp_all add: frameCellSpec_def split: list.splits)
  with distributeRecords_spec[OF assms len, of n] show ?thesis
    by (simp add: buildDataFrame_def)
qed

lemma recordCovers_progression:
  assumes "recordInRange cfg dr"
  shows "recordCovers dr c \<longleftrightarrow>
     (\<exists>k. int c = sint (first dr) - 1 + int k * sint (step dr)) \<and> int c < sint (last_cell dr)"
proof -
  from assms have f: "1 \<le> sint (first dr)" and s: "1 \<le> sint (step dr)"
    by (simp_all add: recordInRange_def)
  define a where "a = nat (sint (first dr) - 1)"
  define d where "d = nat (sint (step dr))"
  have a: "int a = sint (first dr) - 1" using f by (simp add: a_def)
  have d: "int d = sint (step dr)" using s by (simp add: d_def)
  have "(a \<le> c \<and> (c - a) mod d = 0) \<longleftrightarrow> (\<exists>k. c = a + k * d)"
  proof
    assume h: "a \<le> c \<and> (c - a) mod d = 0"
    then have "d dvd (c - a)" by (simp add: mod_eq_0_iff_dvd)
    then obtain k where "c - a = d * k" by (auto simp: dvd_def)
    with h have "c = a + k * d" by (simp add: mult.commute)
    then show "\<exists>k. c = a + k * d" ..
  next
    assume "\<exists>k. c = a + k * d"
    then obtain k where "c = a + k * d" ..
    then show "a \<le> c \<and> (c - a) mod d = 0" by simp
  qed
  also have "\<dots> \<longleftrightarrow> (\<exists>k. int c = sint (first dr) - 1 + int k * sint (step dr))"
  proof -
    have "c = a + k * d \<longleftrightarrow> int c = sint (first dr) - 1 + int k * sint (step dr)" for k
    proof -
      have "c = a + k * d \<longleftrightarrow> int c = int (a + k * d)" by (simp only: of_nat_eq_iff)
      also have "\<dots> \<longleftrightarrow> int c = sint (first dr) - 1 + int k * sint (step dr)"
        by (simp only: of_nat_add of_nat_mult a d)
      finally show ?thesis .
    qed
    then show ?thesis by simp
  qed
  finally have "(a \<le> c \<and> (c - a) mod d = 0)
      \<longleftrightarrow> (\<exists>k. int c = sint (first dr) - 1 + int k * sint (step dr))" .
  then show ?thesis
    unfolding recordCovers_def a_def d_def by auto
qed

lemma case_last_snoc:
  "(case xs @ [x] of [] \<Rightarrow> q | rs \<Rightarrow> f (last rs)) = f x"
  by (cases xs) simp_all

lemma recordCovers_in_frame:
  assumes "recordInRange cfg dr" "recordCovers dr c"
  shows "c < unat (cells_per_frame cfg)"
proof -
  from assms have "int c < sint (last_cell dr)" "sint (last_cell dr) \<le> uint (cells_per_frame cfg)"
    by (simp_all add: recordCovers_def recordInRange_def)
  moreover have "uint (cells_per_frame cfg) = int (unat (cells_per_frame cfg))" by simp
  ultimately show ?thesis by linarith
qed

lemma recordCovers_empty:
  assumes "sint (last_cell dr) < sint (first dr)"
  shows "\<not> recordCovers dr c"
proof
  assume "recordCovers dr c"
  then have "nat (sint (first dr) - 1) \<le> c" "int c < sint (last_cell dr)"
    by (simp_all add: recordCovers_def)
  with assms show False by linarith
qed

lemma populateCells_overrun:
  fixes cellNumber lastCell :: u32
  assumes "unat cellNumber \<le> length frame" "length frame < unat lastCell"
  shows "populateCells cellNumber lastCell 1 v frame = Some (Inl OutOfBounds)"
  using assms
proof (induction "length frame - unat cellNumber" arbitrary: cellNumber frame rule: less_induct)
  case less
  have lt: "cellNumber < lastCell"
    using less.prems by (simp add: word_less_nat_alt)
  show ?case
  proof (cases "unat cellNumber < length frame")
    case False
    with lt show ?thesis by (subst populateCells.simps) simp
  next
    case True
    have "unat lastCell < 2 ^ 32" using unsigned_less[of lastCell, where ?'a = nat] by simp
    then have "unat cellNumber + unat (1 :: u32) < 2 ^ 32" using True less.prems(2) by simp
    then have nxt: "unat (cellNumber + 1) = unat cellNumber + 1"
      by (simp add: unat_add_lem[THEN iffD1])
    let ?f1 = "frame[unat cellNumber := v]"
    have dec: "length ?f1 - unat (cellNumber + 1) < length frame - unat cellNumber"
      using True nxt by simp
    have p1: "unat (cellNumber + 1) \<le> length ?f1" using True nxt by simp
    have p2: "length ?f1 < unat lastCell" using less.prems(2) by simp
    from less.hyps[OF dec p1 p2] lt True show ?thesis
      by (subst populateCells.simps) simp
  qed
qed

text \<open>
  C2, as the code has it. For every frame number \<open>n\<close> and every distribution list whose
  records satisfy \<open>1 \<le> firstCell \<le> cells_per_frame\<close>, \<open>0 \<le> lastCell \<le>
  cells_per_frame\<close> and \<open>step \<ge> 1\<close>, \<open>buildDataFrame n\<close> returns a buffer of length
  \<open>cells_per_frame\<close> in which every cell holds the byte of the contract above. In
  particular: a cell addressed by no record equals \<open>quiescent\<close>; the records whose values
  sequence has length \<open>\<le> n\<close> contribute nothing (the frame is the one built without
  them); a record with more than \<open>n\<close> values determines, with \<open>values[n]\<close>, exactly the
  cells \<open>firstCell - 1 + k * step\<close> below \<open>lastCell\<close> that no later such record
  addresses; and where records overlap, the later one in list order gives the byte.
\<close>

theorem C2_frame_builder:
  assumes "\<forall>dr\<in>set dl. recordInRange cfg dr"
  shows "\<exists>frame.
      buildDataFrame cfg dl n = Some (Inr frame)
    \<and> length frame = unat (cells_per_frame cfg)
    \<and> (\<forall>c<unat (cells_per_frame cfg). frame ! c = frameCellSpec cfg dl n c)
    \<and> (\<forall>c<unat (cells_per_frame cfg).
          (\<forall>dr\<in>set dl. \<not> recordCovers dr c) \<longrightarrow> frame ! c = quiescent cfg)
    \<and> buildDataFrame cfg (filter (\<lambda>dr. unat n < length (cellValue dr)) dl) n = Some (Inr frame)
    \<and> (\<forall>c<unat (cells_per_frame cfg). \<forall>earlier dr later.
          dl = earlier @ dr # later
          \<and> unat n < length (cellValue dr) \<and> recordCovers dr c
          \<and> (\<forall>d\<in>set later. \<not> (unat n < length (cellValue d) \<and> recordCovers d c))
          \<longrightarrow> frame ! c = cellValue dr ! unat n)
    \<and> (\<forall>dr\<in>set dl. \<forall>c. recordCovers dr c \<longleftrightarrow>
          (\<exists>k. int c = sint (first dr) - 1 + int k * sint (step dr))
          \<and> int c < sint (last_cell dr))"
proof -
  let ?N = "unat (cells_per_frame cfg)"
  let ?frame = "map (frameCellSpec cfg dl n) [0..<?N]"
  let ?act = "\<lambda>dr. unat n < length (cellValue dr)"
  have b: "buildDataFrame cfg dl n = Some (Inr ?frame)"
    by (rule buildDataFrame_spec[OF assms])
  have nth: "?frame ! c = frameCellSpec cfg dl n c" if "c < ?N" for c
    using that by simp
  have quiet: "?frame ! c = quiescent cfg" if "c < ?N" "\<forall>dr\<in>set dl. \<not> recordCovers dr c" for c
  proof -
    have "filter (\<lambda>dr. ?act dr \<and> recordCovers dr c) dl = []"
      using that(2) by (simp add: filter_empty_conv)
    then show ?thesis using that(1) by (simp add: frameCellSpec_def)
  qed
  have sub: "\<forall>dr\<in>set (filter ?act dl). recordInRange cfg dr" using assms by simp
  have "frameCellSpec cfg (filter ?act dl) n c = frameCellSpec cfg dl n c" for c
  proof -
    have "filter (\<lambda>dr. ?act dr \<and> recordCovers dr c) (filter ?act dl)
        = filter (\<lambda>dr. ?act dr \<and> recordCovers dr c) dl"
      by (simp add: conj_commute cong: conj_cong)
    then show ?thesis by (simp only: frameCellSpec_def)
  qed
  then have f: "buildDataFrame cfg (filter ?act dl) n = Some (Inr ?frame)"
    using buildDataFrame_spec[OF sub, of n] by simp
  have lww: "?frame ! c = cellValue dr ! unat n"
    if "c < ?N" "dl = earlier @ dr # later" "?act dr" "recordCovers dr c"
      "\<forall>d\<in>set later. \<not> (?act d \<and> recordCovers d c)" for c earlier dr later
  proof -
    have "filter (\<lambda>dr. ?act dr \<and> recordCovers dr c) later = []"
      using that(5) by (simp add: filter_empty_conv)
    then have "filter (\<lambda>dr. ?act dr \<and> recordCovers dr c) dl
        = filter (\<lambda>dr. ?act dr \<and> recordCovers dr c) earlier @ [dr]"
      using that(2,3,4) by simp
    then have "frameCellSpec cfg dl n c
        = (case filter (\<lambda>dr. ?act dr \<and> recordCovers dr c) earlier @ [dr] of
             [] \<Rightarrow> quiescent cfg | rs \<Rightarrow> cellValue (last rs) ! unat n)"
      by (simp only: frameCellSpec_def)
    also have "\<dots> = cellValue dr ! unat n"
      by (rule case_last_snoc[where f = "\<lambda>r. cellValue r ! unat n"])
    finally show ?thesis using that(1) by simp
  qed
  have prog: "recordCovers dr c \<longleftrightarrow>
          (\<exists>k. int c = sint (first dr) - 1 + int k * sint (step dr))
          \<and> int c < sint (last_cell dr)" if "dr \<in> set dl" for dr c
    using recordCovers_progression[of cfg dr c] assms that by blast
  show ?thesis
  proof (intro exI[of _ ?frame] conjI allI impI ballI)
    show "buildDataFrame cfg dl n = Some (Inr ?frame)" by (rule b)
    show "length ?frame = ?N" by simp
    show "buildDataFrame cfg (filter ?act dl) n = Some (Inr ?frame)" by (rule f)
  next
    fix c assume "c < ?N"
    then show "?frame ! c = frameCellSpec cfg dl n c" by (rule nth)
  next
    fix c assume "c < ?N" "\<forall>dr\<in>set dl. \<not> recordCovers dr c"
    then show "?frame ! c = quiescent cfg" by (rule quiet)
  next
    fix c earlier dr later
    assume "c < ?N" and "dl = earlier @ dr # later
          \<and> unat n < length (cellValue dr) \<and> recordCovers dr c
          \<and> (\<forall>d\<in>set later. \<not> (unat n < length (cellValue d) \<and> recordCovers d c))"
    then show "?frame ! c = cellValue dr ! unat n" using lww by blast
  next
    fix dr c assume "dr \<in> set dl"
    then show "recordCovers dr c \<longleftrightarrow>
          (\<exists>k. int c = sint (first dr) - 1 + int k * sint (step dr))
          \<and> int c < sint (last_cell dr)" by (rule prog)
  qed
qed

theorem C2_frame_builder_witness:
  "recordInRange shippedConfig \<lparr> first = 1, last_cell = 4, step = 2, cellValue = [7, 8] \<rparr>
   \<and> recordInRange shippedConfig \<lparr> first = 3, last_cell = 3, step = 1, cellValue = [9] \<rparr>
   \<and> (\<exists>frame.
         buildDataFrame shippedConfig
           [\<lparr> first = 1, last_cell = 4, step = 2, cellValue = [7, 8] \<rparr>,
            \<lparr> first = 3, last_cell = 3, step = 1, cellValue = [9] \<rparr>] 0 = Some (Inr frame)
       \<and> length frame = 2048
       \<and> frame ! 0 = 7 \<and> frame ! 1 = 170 \<and> frame ! 2 = 9 \<and> frame ! 3 = 170)
   \<and> (\<exists>frame.
         buildDataFrame shippedConfig
           [\<lparr> first = 1, last_cell = 4, step = 2, cellValue = [7, 8] \<rparr>,
            \<lparr> first = 3, last_cell = 3, step = 1, cellValue = [9] \<rparr>] 1 = Some (Inr frame)
       \<and> frame ! 0 = 8 \<and> frame ! 1 = 170 \<and> frame ! 2 = 8 \<and> frame ! 3 = 170)"
proof -
  let ?a = "\<lparr> first = 1, last_cell = 4, step = 2, cellValue = [7, 8 :: u8] \<rparr>"
  let ?b = "\<lparr> first = 3, last_cell = 3, step = 1, cellValue = [9 :: u8] \<rparr>"
  have ra: "recordInRange shippedConfig ?a" and rb: "recordInRange shippedConfig ?b"
    by (simp_all add: recordInRange_def shippedConfig_def)
  then have h: "\<forall>dr\<in>set [?a, ?b]. recordInRange shippedConfig dr" by simp
  have n: "unat (cells_per_frame shippedConfig) = 2048" by (simp add: shippedConfig_def)
  have q: "quiescent shippedConfig = 170" by (simp add: shippedConfig_def)
  from C2_frame_builder[OF h, of 0] obtain f0 where
    f0: "buildDataFrame shippedConfig [?a, ?b] 0 = Some (Inr f0)"
      "length f0 = unat (cells_per_frame shippedConfig)"
      "\<forall>c<unat (cells_per_frame shippedConfig). f0 ! c = frameCellSpec shippedConfig [?a, ?b] 0 c"
    by blast
  from C2_frame_builder[OF h, of 1] obtain f1 where
    f1: "buildDataFrame shippedConfig [?a, ?b] 1 = Some (Inr f1)"
      "\<forall>c<unat (cells_per_frame shippedConfig). f1 ! c = frameCellSpec shippedConfig [?a, ?b] 1 c"
    by blast
  have v0: "f0 ! 0 = 7" "f0 ! 1 = 170" "f0 ! 2 = 9" "f0 ! 3 = 170"
    using f0(3) n q by (simp_all add: frameCellSpec_def recordCovers_def)
  have v1: "f1 ! 0 = 8" "f1 ! 1 = 170" "f1 ! 2 = 8" "f1 ! 3 = 170"
    using f1(2) n q by (simp_all add: frameCellSpec_def recordCovers_def)
  from ra rb f0(1,2) f1(1) n v0 v1 show ?thesis by auto
qed

text \<open>
  C2 as stated admits a negative \<open>lastCell\<close>, which satisfies \<open>lastCell \<le>
  cells_per_frame\<close>. The loop test \<open>cellNumber < dr.last\<close> compares a \<open>uint32_t\<close> with
  an \<open>int\<close>, so \<open>-1\<close> is read as 4294967295: the record \<open>1, -1, 1\<close> stores into cells
  0 to 2047 and then into cell 2048, past the end of the 2048-cell buffer.
\<close>

theorem C2_negative_last_cell_overruns:
  "1 \<le> sint (1 :: i32) \<and> sint (1 :: i32) \<le> uint (cells_per_frame shippedConfig)
   \<and> sint (- 1 :: i32) \<le> uint (cells_per_frame shippedConfig) \<and> 1 \<le> sint (1 :: i32)
   \<and> buildDataFrame shippedConfig
         [\<lparr> first = 1, last_cell = - 1, step = 1, cellValue = [7] \<rparr>] 0
       = Some (Inl OutOfBounds)"
proof -
  let ?q = "replicate (unat (cells_per_frame shippedConfig)) (quiescent shippedConfig)"
  have "populateCells 0 (- 1) 1 7 ?q = Some (Inl OutOfBounds)"
    by (rule populateCells_overrun)
      (simp_all add: shippedConfig_def unsigned_minus_1_eq_mask mask_eq_exp_minus_1)
  then show ?thesis
    by (simp add: buildDataFrame_def distributeRecord_def shippedConfig_def)
qed

text \<open>
  C10, as the code has it. For a distribution record with \<open>1 \<le> firstCell \<le>
  cells_per_frame\<close>, \<open>step \<ge> 1\<close> and \<open>0 \<le> lastCell \<le> cells_per_frame\<close> (only the
  first is checked by the loader; the others are hypotheses), the record's pass over a
  frame buffer of \<open>cells_per_frame\<close> bytes ends without a store out of bounds: it changes
  only cells the record addresses, all of which lie in \<open>[0, cells_per_frame)\<close>. When
  \<open>lastCell < firstCell\<close> the record addresses no cell and the buffer is returned as it
  was, without an error. Hence \<open>buildDataFrame\<close> returns a frame of \<open>cells_per_frame\<close>
  bytes for every list of such records.
\<close>

theorem C10_writes_in_bounds:
  assumes "recordInRange cfg dr" "length frame = unat (cells_per_frame cfg)"
  shows "\<exists>frame'.
      distributeRecord n dr frame = Some (Inr frame')
    \<and> length frame' = length frame
    \<and> (\<forall>c<length frame. frame' ! c \<noteq> frame ! c \<longrightarrow> recordCovers dr c)
    \<and> (\<forall>c. recordCovers dr c \<longrightarrow> c < unat (cells_per_frame cfg))
    \<and> (sint (last_cell dr) < sint (first dr) \<longrightarrow> (\<forall>c. \<not> recordCovers dr c) \<and> frame' = frame)
    \<and> (\<forall>dl. (\<forall>d\<in>set dl. recordInRange cfg d)
          \<longrightarrow> (\<exists>built. buildDataFrame cfg dl n = Some (Inr built)
                \<and> length built = unat (cells_per_frame cfg)))"
proof -
  let ?frame' = "map (\<lambda>j. if unat n < length (cellValue dr) \<and> recordCovers dr j
                           then cellValue dr ! unat n else frame ! j) [0..<length frame]"
  have d: "distributeRecord n dr frame = Some (Inr ?frame')"
    by (rule distributeRecord_spec[OF assms])
  have ch: "recordCovers dr c" if "c < length frame" "?frame' ! c \<noteq> frame ! c" for c
    using that by (simp split: if_splits)
  have emp: "?frame' = frame" if "sint (last_cell dr) < sint (first dr)"
  proof -
    have "?frame' = map (\<lambda>j. frame ! j) [0..<length frame]"
      using recordCovers_empty[OF that] by simp
    then show ?thesis by (simp only: map_nth)
  qed
  have all: "\<exists>built. buildDataFrame cfg dl n = Some (Inr built)
                \<and> length built = unat (cells_per_frame cfg)"
    if "\<forall>d\<in>set dl. recordInRange cfg d" for dl
    using buildDataFrame_spec[OF that, of n] by simp
  show ?thesis
  proof (rule exI[of _ ?frame'], intro conjI allI impI)
    show "distributeRecord n dr frame = Some (Inr ?frame')" by (rule d)
    show "length ?frame' = length frame" by simp
  next
    fix c assume "c < length frame" "?frame' ! c \<noteq> frame ! c"
    then show "recordCovers dr c" by (rule ch)
  next
    fix c assume "recordCovers dr c"
    then show "c < unat (cells_per_frame cfg)" by (rule recordCovers_in_frame[OF assms(1)])
  next
    fix c assume "sint (last_cell dr) < sint (first dr)"
    then show "\<not> recordCovers dr c" by (rule recordCovers_empty)
  next
    assume "sint (last_cell dr) < sint (first dr)"
    then show "?frame' = frame" by (rule emp)
  next
    fix dl assume "\<forall>d\<in>set dl. recordInRange cfg d"
    then show "\<exists>built. buildDataFrame cfg dl n = Some (Inr built)
                \<and> length built = unat (cells_per_frame cfg)" by (rule all)
  qed
qed

theorem C10_writes_in_bounds_witness:
  "recordInRange shippedConfig \<lparr> first = 5, last_cell = 3, step = 1, cellValue = [7] \<rparr>
   \<and> length (replicate 2048 (170 :: u8)) = unat (cells_per_frame shippedConfig)
   \<and> sint (3 :: i32) < sint (5 :: i32)
   \<and> distributeRecord 0 \<lparr> first = 5, last_cell = 3, step = 1, cellValue = [7] \<rparr>
         (replicate 2048 170) = Some (Inr (replicate 2048 170))"
proof -
  let ?dr = "\<lparr> first = 5, last_cell = 3, step = 1, cellValue = [7 :: u8] \<rparr>"
  let ?f = "replicate 2048 (170 :: u8)"
  have h1: "recordInRange shippedConfig ?dr"
    by (simp add: recordInRange_def shippedConfig_def)
  have h2: "length ?f = unat (cells_per_frame shippedConfig)"
    by (simp add: shippedConfig_def)
  have h3: "sint (last_cell ?dr) < sint (first ?dr)" by simp
  from C10_writes_in_bounds[OF h1 h2, of 0] h3 obtain frame' where
    "distributeRecord 0 ?dr ?f = Some (Inr frame')" "frame' = ?f"
    by blast
  with h1 h2 show ?thesis by simp
qed

text \<open>
  C10 as stated admits a negative \<open>lastCell\<close>. The loader stores the line
  \<open>5, -3 $ A\<close> as the record \<open>5, -3, 1\<close>: \<open>lastCell < firstCell\<close>, yet the unsigned
  loop test reads \<open>-3\<close> as 4294967293, the record stores into cells 4 to 2047 and then
  past the end of the buffer.
\<close>

theorem C10_negative_last_cell_overruns:
  "loadDistributionLine shippedConfig [''A'' \<mapsto> [7]]
      \<lparr> firstField = 5, lastField = - 3, stepField = 0, fragmentNames = [''A''] \<rparr> []
     = Inr [\<lparr> first = 5, last_cell = - 3, step = 1, cellValue = [7] \<rparr>]
   \<and> 1 \<le> sint (5 :: i32) \<and> sint (5 :: i32) \<le> uint (cells_per_frame shippedConfig)
   \<and> 1 \<le> sint (1 :: i32) \<and> sint (- 3 :: i32) \<le> uint (cells_per_frame shippedConfig)
   \<and> sint (- 3 :: i32) < sint (5 :: i32)
   \<and> distributeRecord 0 \<lparr> first = 5, last_cell = - 3, step = 1, cellValue = [7] \<rparr>
         (replicate (unat (cells_per_frame shippedConfig)) (quiescent shippedConfig))
       = Some (Inl OutOfBounds)"
proof -
  let ?q = "replicate (unat (cells_per_frame shippedConfig)) (quiescent shippedConfig)"
  have "populateCells 4 (- 3) 1 7 ?q = Some (Inl OutOfBounds)"
    by (rule populateCells_overrun) (simp_all add: shippedConfig_def)
  then show ?thesis
    by (simp add: distributeRecord_def loadDistributionLine_def shippedConfig_def)
qed

section \<open>The output file\<close>

lemma populateCells_length_gen:
  "populateCells cellNumber lastCell stepSize v frame = Some r \<Longrightarrow>
   (\<forall>out. r = Inr out \<longrightarrow> length out = length frame)"
  by (induct rule: populateCells.raw_induct[rotated 1, consumes 1]) (auto split: if_split_asm)

lemma populateCells_length:
  "populateCells cellNumber lastCell stepSize v frame = Some (Inr out) \<Longrightarrow> length out = length frame"
  using populateCells_length_gen by blast

lemma distributeRecord_length:
  "distributeRecord n dr frame = Some (Inr out) \<Longrightarrow> length out = length frame"
  by (auto simp: distributeRecord_def split: if_splits dest: populateCells_length)

lemma distributeRecords_length:
  "distributeRecords n dl frame = Some (Inr out) \<Longrightarrow> length out = length frame"
proof (induction dl arbitrary: frame)
  case Nil
  then show ?case by simp
next
  case (Cons dr dl)
  from Cons.prems obtain f1 where f1: "distributeRecord n dr frame = Some (Inr f1)"
    and r: "distributeRecords n dl f1 = Some (Inr out)"
    by (auto split: option.splits sum.splits)
  from Cons.IH[OF r] distributeRecord_length[OF f1] show ?case by simp
qed

lemma buildDataFrame_length:
  "buildDataFrame cfg dl n = Some (Inr frame) \<Longrightarrow> length frame = unat (cells_per_frame cfg)"
  using distributeRecords_length[of n dl "replicate (unat (cells_per_frame cfg)) (quiescent cfg)" frame]
  by (simp add: buildDataFrame_def)

lemma fold_append_concat:
  "fold (\<lambda>i out. out @ g i) xs ofile = ofile @ concat (map g xs)"
  by (induction xs arbitrary: ofile) simp_all

lemma writeDiagnosticFrames_layout:
  assumes "length (diagnostic_values cfg) < 2 ^ 32"
  shows "writeDiagnosticFrames cfg ofile
     = ofile @ concat (map (\<lambda>v. replicate (unat (cells_per_frame cfg)) v) (diagnostic_values cfg))"
proof -
  let ?dv = "diagnostic_values cfg" and ?N = "unat (cells_per_frame cfg)"
  have u: "unat (of_nat (length ?dv) :: u32) = length ?dv"
    using assms by (simp add: unat_of_nat)
  have "map (\<lambda>i. replicate ?N (?dv ! i)) [0..<length ?dv] = map (\<lambda>v. replicate ?N v) ?dv"
    by (rule nth_equalityI) simp_all
  then show ?thesis
    by (simp add: writeDiagnosticFrames_def Let_def u fold_append_concat)
qed

lemma writeDataFrames_layout:
  assumes lv: "nolvds \<or> unat (cells_per_frame cfg) < 2147485696"
  shows "(\<And>i. i < m \<Longrightarrow> buildDataFrame cfg dl (frameNumber + of_nat i) = Some (Inr (raw i))) \<Longrightarrow>
   writeDataFrames cfg nolvds dl m frameNumber ofile
     = Some (Inr (frameNumber + of_nat m,
             ofile @ concat (map (\<lambda>i. if nolvds then raw i else lvdsFrameSpec (raw i)) [0..<m])))"
proof (induction m arbitrary: frameNumber ofile raw)
  case 0
  then show ?case by simp
next
  case (Suc m)
  let ?tr = "\<lambda>frame. if nolvds then frame else lvdsFrameSpec frame"
  have b0: "buildDataFrame cfg dl frameNumber = Some (Inr (raw 0))"
    using Suc.prems[of 0] by simp
  have l0: "length (raw 0) = unat (cells_per_frame cfg)"
    by (rule buildDataFrame_length[OF b0])
  have t0: "(if nolvds then Inr (raw 0) else reorderForLvds cfg (raw 0)) = Inr (?tr (raw 0))"
    using lv reorderForLvds_spec[OF l0] by auto
  have rest: "buildDataFrame cfg dl (frameNumber + 1 + of_nat i) = Some (Inr (raw (Suc i)))"
    if "i < m" for i
    using Suc.prems[of "Suc i"] that by (simp add: ac_simps)
  have ih: "writeDataFrames cfg nolvds dl m (frameNumber + 1) (ofile @ ?tr (raw 0))
     = Some (Inr (frameNumber + 1 + of_nat m,
             (ofile @ ?tr (raw 0)) @ concat (map (\<lambda>i. ?tr (raw (Suc i))) [0..<m])))"
    using Suc.IH[of "frameNumber + 1" "\<lambda>i. raw (Suc i)" "ofile @ ?tr (raw 0)"] rest by simp
  have shift: "map (\<lambda>i. ?tr (raw i)) [0..<Suc m]
      = ?tr (raw 0) # map (\<lambda>i. ?tr (raw (Suc i))) [0..<m]"
    by (rule map_upt_Suc)
  have "writeDataFrames cfg nolvds dl (Suc m) frameNumber ofile
      = writeDataFrames cfg nolvds dl m (frameNumber + 1) (ofile @ ?tr (raw 0))"
    by (simp only: writeDataFrames.simps b0 t0 option.case sum.case)
  also note ih
  finally show ?case
    unfolding shift by (simp add: ac_simps)
qed

lemma writeDataFrames_build_fails:
  "0 < m \<Longrightarrow> buildDataFrame cfg dl frameNumber = Some (Inl e) \<Longrightarrow>
   writeDataFrames cfg nolvds dl m frameNumber ofile = Some (Inl e)"
  by (cases m) simp_all

lemma writeDataFrames_reorder_fails:
  "0 < m \<Longrightarrow> buildDataFrame cfg dl frameNumber = Some (Inr frame) \<Longrightarrow>
   reorderForLvds cfg frame = Inl e \<Longrightarrow>
   writeDataFrames cfg False dl m frameNumber ofile = Some (Inl e)"
  by (cases m) simp_all

lemma sint_of_nat_small:
  "g < 2147483648 \<Longrightarrow> sint (of_nat g :: i32) = int g"
  by (simp add: signed_of_nat signed_take_bit_int_eq_self)

lemma unat_of_nat_small:
  "g < 2147483648 \<Longrightarrow> unat (of_nat g :: i32) = g"
  by (simp add: unat_of_nat)

lemma writeFrameGroups_layout:
  assumes diag: "length (diagnostic_values cfg) < 2 ^ 32"
    and lv: "nolvds \<or> unat (cells_per_frame cfg) < 2147485696"
    and cnt: "unat groupCount < 2147483648"
    and frames: "\<And>k. k < unat groupCount * unat (data_frames cfg)
            \<Longrightarrow> buildDataFrame cfg dl (of_nat k) = Some (Inr (raw k))"
  shows "g \<le> unat groupCount \<Longrightarrow>
     writeFrameGroups cfg nolvds dl groupCount (of_nat g) (of_nat (g * unat (data_frames cfg))) ofile
       = Some (Inr (of_nat (unat groupCount * unat (data_frames cfg)),
               ofile @ concat (map (frameGroupLayout cfg nolvds raw) [g..<unat groupCount])))"
proof (induction "unat groupCount - g" arbitrary: g ofile)
  case 0
  then have g: "g = unat groupCount" by simp
  have "\<not> (of_nat g :: i32) < groupCount" unfolding g by simp
  then show ?case
    unfolding g by (subst writeFrameGroups.simps) simp
next
  case (Suc d)
  let ?D = "unat (data_frames cfg)" and ?n = "unat groupCount"
  let ?tr = "\<lambda>frame. if nolvds then frame else lvdsFrameSpec frame"
  from Suc.hyps(2) have gl: "g < ?n" by simp
  with cnt have gs: "g < 2147483648" by simp
  have lt: "(of_nat g :: i32) < groupCount"
    using gl unat_of_nat_small[OF gs] by (simp add: word_less_nat_alt)
  have ns: "sint (of_nat g :: i32) \<noteq> 2147483647"
    using sint_of_nat_small[OF gs] gl cnt by simp
  have data: "buildDataFrame cfg dl (of_nat (g * ?D) + of_nat i) = Some (Inr (raw (g * ?D + i)))"
    if "i < ?D" for i
  proof -
    have "g * ?D + i < Suc g * ?D" using that by simp
    also have "\<dots> \<le> ?n * ?D" using gl by (simp only: mult_le_mono1 Suc_leI)
    finally show ?thesis using frames[of "g * ?D + i"] by simp
  qed
  have grp: "writeDataFrames cfg nolvds dl ?D (of_nat (g * ?D)) (writeDiagnosticFrames cfg ofile)
      = Some (Inr (of_nat (g * ?D) + of_nat ?D,
              writeDiagnosticFrames cfg ofile
                @ concat (map (\<lambda>i. ?tr (raw (g * ?D + i))) [0..<?D])))"
    using writeDataFrames_layout[OF lv, of ?D dl "of_nat (g * ?D)" "\<lambda>i. raw (g * ?D + i)"
        "writeDiagnosticFrames cfg ofile"] data by simp
  have num: "(of_nat (g * ?D) + of_nat ?D :: u32) = of_nat (Suc g * ?D)"
    by (simp add: algebra_simps)
  have out: "writeDiagnosticFrames cfg ofile @ concat (map (\<lambda>i. ?tr (raw (g * ?D + i))) [0..<?D])
      = ofile @ frameGroupLayout cfg nolvds raw g"
    by (simp add: writeDiagnosticFrames_layout[OF diag] frameGroupLayout_def)
  have nx: "(of_nat g + 1 :: i32) = of_nat (Suc g)" by simp
  have d: "d = ?n - Suc g" using Suc.hyps(2) by simp
  have sl: "Suc g \<le> ?n" using gl by simp
  have ih: "writeFrameGroups cfg nolvds dl groupCount (of_nat (Suc g)) (of_nat (Suc g * ?D))
        (ofile @ frameGroupLayout cfg nolvds raw g)
      = Some (Inr (of_nat (?n * ?D),
              (ofile @ frameGroupLayout cfg nolvds raw g)
                @ concat (map (frameGroupLayout cfg nolvds raw) [Suc g..<?n])))"
    by (rule Suc.hyps(1)[OF d sl])
  have lst: "[g..<?n] = g # [Suc g..<?n]"
    using gl by (simp add: upt_conv_Cons)
  have "writeFrameGroups cfg nolvds dl groupCount (of_nat g) (of_nat (g * ?D)) ofile
      = writeFrameGroups cfg nolvds dl groupCount (of_nat (Suc g)) (of_nat (Suc g * ?D))
          (ofile @ frameGroupLayout cfg nolvds raw g)"
    by (subst writeFrameGroups.simps)
      (simp only: lt ns grp num out nx if_True if_False option.case sum.case prod.case)
  also note ih
  finally show ?case
    unfolding lst by simp
qed

lemma writeFrameGroups_overflow:
  assumes lv: "nolvds \<or> unat (cells_per_frame cfg) < 2147485696"
    and cnt: "2147483648 \<le> unat groupCount"
    and frames: "\<And>n. buildDataFrame cfg dl n = Some (Inr (raw n))"
  shows "g \<le> 2147483647 \<Longrightarrow>
     writeFrameGroups cfg nolvds dl groupCount (of_nat g) frameNumber ofile
       = Some (Inl SignedOverflow)"
proof (induction "2147483647 - g" arbitrary: g frameNumber ofile)
  case 0
  then have g: "g = 2147483647" by simp
  have gs: "g < 2147483648" unfolding g by simp
  have lt: "(of_nat g :: i32) < groupCount"
    using cnt gs unat_of_nat_small[OF gs] by (simp add: word_less_nat_alt)
  have mx: "sint (of_nat g :: i32) = 2147483647"
    using sint_of_nat_small[OF gs] g by simp
  let ?D = "unat (data_frames cfg)"
  let ?written = "(frameNumber + of_nat ?D,
      writeDiagnosticFrames cfg ofile
        @ concat (map (\<lambda>i. if nolvds then raw (frameNumber + of_nat i)
                             else lvdsFrameSpec (raw (frameNumber + of_nat i))) [0..<?D]))"
  have grp: "writeDataFrames cfg nolvds dl ?D frameNumber (writeDiagnosticFrames cfg ofile)
      = Some (Inr ?written)"
    using writeDataFrames_layout[OF lv, of ?D dl frameNumber "\<lambda>i. raw (frameNumber + of_nat i)"
        "writeDiagnosticFrames cfg ofile"] frames by simp
  show ?case
    by (subst writeFrameGroups.simps)
      (simp only: lt mx grp if_True option.case sum.case prod.case simp_thms)
next
  case (Suc d)
  from Suc.hyps(2) have gl: "g < 2147483647" by simp
  then have gs: "g < 2147483648" by simp
  have lt: "(of_nat g :: i32) < groupCount"
    using cnt gs unat_of_nat_small[OF gs] by (simp add: word_less_nat_alt)
  have ns: "sint (of_nat g :: i32) \<noteq> 2147483647"
    using sint_of_nat_small[OF gs] gl by simp
  let ?D = "unat (data_frames cfg)"
  let ?written = "(frameNumber + of_nat ?D,
      writeDiagnosticFrames cfg ofile
        @ concat (map (\<lambda>i. if nolvds then raw (frameNumber + of_nat i)
                             else lvdsFrameSpec (raw (frameNumber + of_nat i))) [0..<?D]))"
  have grp: "writeDataFrames cfg nolvds dl ?D frameNumber (writeDiagnosticFrames cfg ofile)
      = Some (Inr ?written)"
    using writeDataFrames_layout[OF lv, of ?D dl frameNumber "\<lambda>i. raw (frameNumber + of_nat i)"
        "writeDiagnosticFrames cfg ofile"] frames by simp
  have nx: "(of_nat g + 1 :: i32) = of_nat (Suc g)" by simp
  have d: "d = 2147483647 - Suc g" using Suc.hyps(2) by simp
  have sl: "Suc g \<le> 2147483647" using gl by simp
  have "writeFrameGroups cfg nolvds dl groupCount (of_nat g) frameNumber ofile
      = writeFrameGroups cfg nolvds dl groupCount (of_nat (Suc g)) (fst ?written) (snd ?written)"
    by (subst writeFrameGroups.simps)
      (simp only: lt ns grp nx if_True if_False option.case sum.case prod.case fst_conv snd_conv)
  also have "\<dots> = Some (Inl SignedOverflow)"
    by (rule Suc.hyps(1)[OF d sl])
  finally show ?case .
qed

lemma length_concat_const:
  "(\<And>x. x \<in> set xs \<Longrightarrow> length (f x) = n) \<Longrightarrow> length (concat (map f xs)) = length xs * n"
  by (induction xs) simp_all

lemma frameGroupLayout_length:
  assumes "\<And>i. i < unat (data_frames cfg)
     \<Longrightarrow> length (raw (g * unat (data_frames cfg) + i)) = unat (cells_per_frame cfg)"
  shows "length (frameGroupLayout cfg nolvds raw g)
     = (length (diagnostic_values cfg) + unat (data_frames cfg)) * unat (cells_per_frame cfg)"
proof -
  let ?D = "unat (data_frames cfg)" and ?N = "unat (cells_per_frame cfg)"
  let ?tr = "\<lambda>frame. if nolvds then frame else lvdsFrameSpec frame"
  have "length (?tr (raw (g * ?D + i))) = ?N" if "i < ?D" for i
    using assms[OF that] by (simp add: lvdsFrameSpec_length)
  then have d: "length (concat (map (\<lambda>i. ?tr (raw (g * ?D + i))) [0..<?D])) = ?D * ?N"
    using length_concat_const[of "[0..<?D]" "\<lambda>i. ?tr (raw (g * ?D + i))" ?N] by simp
  have g: "length (concat (map (\<lambda>v. replicate ?N v) (diagnostic_values cfg)))
      = length (diagnostic_values cfg) * ?N"
    using length_concat_const[of "diagnostic_values cfg" "\<lambda>v. replicate ?N v" ?N] by simp
  show ?thesis
    unfolding frameGroupLayout_def length_append d g by (simp add: algebra_simps)
qed

lemma outputLayout_length:
  assumes "\<And>k. k < groups * unat (data_frames cfg)
     \<Longrightarrow> length (raw k) = unat (cells_per_frame cfg)"
  shows "length (outputLayout cfg nolvds raw groups)
     = groups * (length (diagnostic_values cfg) + unat (data_frames cfg)) * unat (cells_per_frame cfg)"
proof -
  let ?D = "unat (data_frames cfg)" and ?N = "unat (cells_per_frame cfg)"
  let ?G = "(length (diagnostic_values cfg) + ?D) * ?N"
  have "length (frameGroupLayout cfg nolvds raw g) = ?G" if "g < groups" for g
  proof (rule frameGroupLayout_length)
    fix i assume "i < ?D"
    then have "g * ?D + i < Suc g * ?D" by simp
    also have "\<dots> \<le> groups * ?D" using that by (simp only: mult_le_mono1 Suc_leI)
    finally show "length (raw (g * ?D + i)) = ?N" by (rule assms)
  qed
  then show ?thesis
    using length_concat_const[of "[0..<groups]" "frameGroupLayout cfg nolvds raw" ?G]
    by (simp add: outputLayout_def)
qed

lemma dataFrameSpec_length:
  "length (dataFrameSpec cfg dl n) = unat (cells_per_frame cfg)"
  by (simp add: dataFrameSpec_def)

lemma buildDataFrame_dataFrameSpec:
  assumes "\<forall>dr\<in>set dl. recordInRange cfg dr"
  shows "buildDataFrame cfg dl n = Some (Inr (dataFrameSpec cfg dl n))"
  unfolding dataFrameSpec_def by (rule buildDataFrame_spec[OF assms])

lemma lvdsFrameSpec_one_cell:
  assumes "length f = ROW_SIZE" and "f ! 0 = v" and "\<And>c. 0 < c \<Longrightarrow> c < ROW_SIZE \<Longrightarrow> f ! c = q"
  shows "lvdsFrameSpec f = replicate 63 q @ v # replicate 1984 q"
proof (rule nth_equalityI)
  show "length (lvdsFrameSpec f) = length (replicate 63 q @ v # replicate 1984 q)"
    using assms(1) by (simp add: lvdsFrameSpec_length ROW_SIZE_def)
next
  fix k assume "k < length (lvdsFrameSpec f)"
  then have k: "k < ROW_SIZE" using assms(1) by (simp add: lvdsFrameSpec_length)
  then have k': "k < 2048" by (simp add: ROW_SIZE_def)
  have rw: "0 < length f div ROW_SIZE" using assms(1) by (simp add: ROW_SIZE_def)
  have "lvdsFrameSpec f ! (0 * ROW_SIZE + k) = f ! (0 * ROW_SIZE + nat (lvdsTranslationTable ! k))"
    by (rule lvdsFrameSpec_nth[OF rw k])
  then have src: "lvdsFrameSpec f ! k = f ! nat (lvdsEntry k)"
    by (simp add: lvdsTranslationTable_nth[OF k])
  have rng: "nat (lvdsEntry k) < ROW_SIZE"
    using lvdsInverse_entry(1,2)[OF k'] by (simp add: ROW_SIZE_def)
  have i63: "lvdsInverse 0 = 63" by (simp add: lvdsInverse_def)
  have e63: "lvdsEntry 63 = 0" by (simp add: lvdsEntry_def)
  show "lvdsFrameSpec f ! k = (replicate 63 q @ v # replicate 1984 q) ! k"
  proof (cases "k = 63")
    case True
    then show ?thesis using src e63 assms(2) by (simp add: nth_append)
  next
    case False
    have "nat (lvdsEntry k) \<noteq> 0"
    proof
      assume "nat (lvdsEntry k) = 0"
      then have "lvdsInverse (nat (lvdsEntry k)) = 63" using i63 by simp
      with lvdsInverse_entry(3)[OF k'] False show False by simp
    qed
    then have "f ! nat (lvdsEntry k) = q" using assms(3) rng by simp
    moreover have "(replicate 63 q @ v # replicate 1984 q) ! k = q"
      using False k' by (auto simp add: nth_append nth_Cons')
    ultimately show ?thesis using src by simp
  qed
qed

text \<open>
  C6, as the code has it. The claim's layout is what the file holds once
  \<open>writeOutputFile\<close> has returned, and the loops can fail before: by a record outside
  the contract of the frame builder, at the \<open>2^31\<close>-th frame group, whose
  \<open>++frameGroup\<close> leaves the \<open>int32_t\<close> counter's range, and in \<open>reorderForLvds\<close> on a
  frame of \<open>2^31 + 2048\<close> bytes or more; and the number of diagnostic frames is the
  vector's size as a \<open>uint32_t\<close>. So: for a distribution list whose records satisfy
  \<open>1 \<le> firstCell \<le> cells_per_frame\<close>, \<open>0 \<le> lastCell \<le> cells_per_frame\<close> and
  \<open>step \<ge> 1\<close>, fewer than \<open>2^32\<close> diagnostic values, \<open>frameGroupCount < 2^31\<close> and,
  unless \<open>-nolvds\<close> is given, \<open>cells_per_frame < 2^31 + 2048\<close>, \<open>writeOutputFile\<close>
  returns. When the file cannot be created it throws \<open>Can't create\<close> and leaves the
  files as they were. Otherwise the output file holds exactly \<open>frameGroupCount\<close> frame
  groups one after the other, with no header, footer or metadata: each group is one
  diagnostic frame per entry of \<open>diagnostic_values\<close>, filled with that entry's constant,
  followed by \<open>data_frames\<close> data frames. The data frame at position \<open>k\<close> of the run
  (\<open>0, 1, 2, ...\<close>, not reset per group) is the \<open>buildDataFrame\<close> result for the
  \<open>uint32_t\<close> frame number \<open>k\<close>, which is the frame of the builder's contract,
  transformed by \<open>reorderForLvds\<close>, or as it is under \<open>-nolvds\<close>. Every frame is exactly
  \<open>cells_per_frame\<close> bytes, so the file has \<open>frameGroupCount * (diagnostic values +
  data_frames) * cells_per_frame\<close> bytes.
\<close>

theorem C6_output_layout:
  assumes "\<forall>dr\<in>set dl. recordInRange cfg dr"
    and "length (diagnostic_values cfg) < 2 ^ 32"
    and "unat groupCount < 2147483648"
    and "nolvds \<or> unat (cells_per_frame cfg) < 2147485696"
  shows "writeOutputFile cfg nolvds dl groupCount fs
       = (if output_file cfg \<in> unwritable fs
          then Some (Some (CantCreate (output_file cfg)), fs)
          else Some (None, fs\<lparr> contents := (contents fs)
                 (output_file cfg \<mapsto>
                    Bytes (outputLayout cfg nolvds (\<lambda>k. dataFrameSpec cfg dl (of_nat k))
                             (unat groupCount))) \<rparr>))
     \<and> (\<forall>n. buildDataFrame cfg dl n = Some (Inr (dataFrameSpec cfg dl n))
           \<and> length (dataFrameSpec cfg dl n) = unat (cells_per_frame cfg)
           \<and> length (lvdsFrameSpec (dataFrameSpec cfg dl n)) = unat (cells_per_frame cfg)
           \<and> (\<not> nolvds \<longrightarrow> reorderForLvds cfg (dataFrameSpec cfg dl n)
                               = Inr (lvdsFrameSpec (dataFrameSpec cfg dl n))))
     \<and> length (outputLayout cfg nolvds (\<lambda>k. dataFrameSpec cfg dl (of_nat k)) (unat groupCount))
         = unat groupCount * (length (diagnostic_values cfg) + unat (data_frames cfg))
             * unat (cells_per_frame cfg)"
proof (intro conjI allI impI)
  let ?D = "unat (data_frames cfg)" and ?N = "unat (cells_per_frame cfg)"
  let ?raw = "\<lambda>k. dataFrameSpec cfg dl (of_nat k)"
  have b: "buildDataFrame cfg dl (of_nat k) = Some (Inr (?raw k))" for k :: nat
    by (rule buildDataFrame_dataFrameSpec[OF assms(1)])
  have "writeFrameGroups cfg nolvds dl groupCount (of_nat 0) (of_nat (0 * ?D)) []
      = Some (Inr (of_nat (unat groupCount * ?D),
              [] @ concat (map (frameGroupLayout cfg nolvds ?raw) [0..<unat groupCount])))"
    by (rule writeFrameGroups_layout[OF assms(2) assms(4) assms(3) b]) simp
  then have w: "writeFrameGroups cfg nolvds dl groupCount 0 0 []
      = Some (Inr (of_nat (unat groupCount * ?D), outputLayout cfg nolvds ?raw (unat groupCount)))"
    by (simp add: outputLayout_def)
  show "writeOutputFile cfg nolvds dl groupCount fs
       = (if output_file cfg \<in> unwritable fs
          then Some (Some (CantCreate (output_file cfg)), fs)
          else Some (None, fs\<lparr> contents := (contents fs)
                 (output_file cfg \<mapsto>
                    Bytes (outputLayout cfg nolvds ?raw (unat groupCount))) \<rparr>))"
    by (simp add: writeOutputFile_def w)
  show "length (outputLayout cfg nolvds ?raw (unat groupCount))
         = unat groupCount * (length (diagnostic_values cfg) + ?D) * ?N"
    by (rule outputLayout_length) (rule dataFrameSpec_length)
next
  fix n
  show "buildDataFrame cfg dl n = Some (Inr (dataFrameSpec cfg dl n))"
    by (rule buildDataFrame_dataFrameSpec[OF assms(1)])
  show "length (dataFrameSpec cfg dl n) = unat (cells_per_frame cfg)"
    by (rule dataFrameSpec_length)
  show "length (lvdsFrameSpec (dataFrameSpec cfg dl n)) = unat (cells_per_frame cfg)"
    by (simp add: lvdsFrameSpec_length dataFrameSpec_length)
next
  fix n assume "\<not> nolvds"
  with assms(4) have "unat (cells_per_frame cfg) < 2147485696" by simp
  then show "reorderForLvds cfg (dataFrameSpec cfg dl n)
      = Inr (lvdsFrameSpec (dataFrameSpec cfg dl n))"
    by (rule reorderForLvds_spec[OF dataFrameSpec_length])
qed

theorem C6_output_layout_witness:
  "recordInRange (shippedConfig\<lparr> data_frames := 1 \<rparr>)
      \<lparr> first = 1, last_cell = 1, step = 1, cellValue = [7, 9] \<rparr>
   \<and> length (diagnostic_values (shippedConfig\<lparr> data_frames := 1 \<rparr>)) < 2 ^ 32
   \<and> unat (2 :: u32) < 2147483648
   \<and> unat (cells_per_frame (shippedConfig\<lparr> data_frames := 1 \<rparr>)) < 2147485696
   \<and> output_file (shippedConfig\<lparr> data_frames := 1 \<rparr>)
       \<notin> unwritable \<lparr> contents = Map.empty, unwritable = {} \<rparr>
   \<and> buildDataFrame (shippedConfig\<lparr> data_frames := 1 \<rparr>)
         [\<lparr> first = 1, last_cell = 1, step = 1, cellValue = [7, 9] \<rparr>] 0
       = Some (Inr (7 # replicate 2047 170))
   \<and> buildDataFrame (shippedConfig\<lparr> data_frames := 1 \<rparr>)
         [\<lparr> first = 1, last_cell = 1, step = 1, cellValue = [7, 9] \<rparr>] 1
       = Some (Inr (9 # replicate 2047 170))
   \<and> reorderForLvds (shippedConfig\<lparr> data_frames := 1 \<rparr>) (7 # replicate 2047 170)
       = Inr (replicate 63 170 @ 7 # replicate 1984 170)
   \<and> writeOutputFile (shippedConfig\<lparr> data_frames := 1 \<rparr>) False
         [\<lparr> first = 1, last_cell = 1, step = 1, cellValue = [7, 9] \<rparr>] 2
         \<lparr> contents = Map.empty, unwritable = {} \<rparr>
       = Some (None,
           \<lparr> contents = [''output.dat'' \<mapsto> Bytes (
                 replicate 2048 34 @ replicate 2048 32 @ replicate 2048 172
                 @ (replicate 63 170 @ 7 # replicate 1984 170)
                 @ replicate 2048 34 @ replicate 2048 32 @ replicate 2048 172
                 @ (replicate 63 170 @ 9 # replicate 1984 170))],
             unwritable = {} \<rparr>)
   \<and> length (replicate 2048 (34 :: u8) @ replicate 2048 32 @ replicate 2048 172
                 @ (replicate 63 170 @ 7 # replicate 1984 170)
                 @ replicate 2048 34 @ replicate 2048 32 @ replicate 2048 172
                 @ (replicate 63 170 @ 9 # replicate 1984 170)) = 16384"
proof -
  let ?cfg = "shippedConfig\<lparr> data_frames := 1 \<rparr>"
  let ?dr = "\<lparr> first = 1, last_cell = 1, step = 1, cellValue = [7, 9 :: u8] \<rparr>"
  let ?fs = "\<lparr> contents = Map.empty, unwritable = {} \<rparr> :: filesystem"
  let ?raw = "\<lambda>k. dataFrameSpec ?cfg [?dr] (of_nat k)"
  have h0: "recordInRange ?cfg ?dr"
    by (simp add: recordInRange_def shippedConfig_def)
  then have h1: "\<forall>dr\<in>set [?dr]. recordInRange ?cfg dr" by simp
  have h2: "length (diagnostic_values ?cfg) < 2 ^ 32" by (simp add: shippedConfig_def)
  have h3: "unat (2 :: u32) < 2147483648" by simp
  have h4: "unat (cells_per_frame ?cfg) < 2147485696" by (simp add: shippedConfig_def)
  then have h4': "False \<or> unat (cells_per_frame ?cfg) < 2147485696" by simp
  have h5: "output_file ?cfg \<notin> unwritable ?fs" by simp
  note c6 = C6_output_layout[OF h1 h2 h3 h4', of ?fs]
  have n: "unat (cells_per_frame ?cfg) = 2048" "unat (cells_per_frame shippedConfig) = 2048"
    by (simp_all add: shippedConfig_def)
  have q: "quiescent ?cfg = 170" by (simp add: shippedConfig_def)
  have cov: "recordCovers ?dr c \<longleftrightarrow> c = 0" for c
    by (auto simp add: recordCovers_def)
  have cell: "frameCellSpec ?cfg [?dr] m c
      = (if unat m < 2 \<and> c = 0 then [7, 9] ! unat m else 170)" for m c
    by (simp add: frameCellSpec_def cov q)
  have raw: "dataFrameSpec ?cfg [?dr] m = (if unat m < 2 then [7, 9] ! unat m else 170) # replicate 2047 170"
    for m
  proof (rule nth_equalityI)
    show "length (dataFrameSpec ?cfg [?dr] m)
        = length ((if unat m < 2 then [7, 9] ! unat m else 170) # replicate 2047 (170 :: u8))"
      by (simp add: dataFrameSpec_length n)
  next
    fix c assume "c < length (dataFrameSpec ?cfg [?dr] m)"
    then have c: "c < 2048" by (simp add: dataFrameSpec_length n)
    then show "dataFrameSpec ?cfg [?dr] m ! c
        = ((if unat m < 2 then [7, 9] ! unat m else 170) # replicate 2047 (170 :: u8)) ! c"
      by (simp add: dataFrameSpec_def n cell nth_Cons' del: upt_rec_numeral)
  qed
  have raw0: "?raw 0 = 7 # replicate 2047 170" and raw1: "?raw 1 = 9 # replicate 2047 170"
    by (simp_all add: raw)
  have lv: "lvdsFrameSpec (v # replicate 2047 (170 :: u8)) = replicate 63 170 @ v # replicate 1984 170"
    for v
    by (rule lvdsFrameSpec_one_cell) (simp_all add: ROW_SIZE_def nth_Cons')
  have lay: "outputLayout ?cfg False ?raw (unat (2 :: u32))
      = replicate 2048 34 @ replicate 2048 32 @ replicate 2048 172
        @ (replicate 63 170 @ 7 # replicate 1984 170)
        @ replicate 2048 34 @ replicate 2048 32 @ replicate 2048 172
        @ (replicate 63 170 @ 9 # replicate 1984 170)"
    by (simp add: outputLayout_def frameGroupLayout_def shippedConfig_def upt_conv_Cons
        raw0[unfolded shippedConfig_def, simplified] raw1[unfolded shippedConfig_def, simplified] lv)
  from c6 h5 have w: "writeOutputFile ?cfg False [?dr] 2 ?fs
       = Some (None, ?fs\<lparr> contents := (contents ?fs)
                 (output_file ?cfg \<mapsto> Bytes (outputLayout ?cfg False ?raw (unat (2 :: u32)))) \<rparr>)"
    by simp
  from c6 have b: "buildDataFrame ?cfg [?dr] 0 = Some (Inr (dataFrameSpec ?cfg [?dr] 0))"
    "buildDataFrame ?cfg [?dr] 1 = Some (Inr (dataFrameSpec ?cfg [?dr] 1))"
    "reorderForLvds ?cfg (dataFrameSpec ?cfg [?dr] 0) = Inr (lvdsFrameSpec (dataFrameSpec ?cfg [?dr] 0))"
    by blast+
  have b0: "buildDataFrame ?cfg [?dr] 0 = Some (Inr (7 # replicate 2047 170))"
    and b1: "buildDataFrame ?cfg [?dr] 1 = Some (Inr (9 # replicate 2047 170))"
    and r0: "reorderForLvds ?cfg (7 # replicate 2047 170)
       = Inr (replicate 63 170 @ 7 # replicate 1984 170)"
    using b by (simp_all add: raw lv)
  have name: "output_file ?cfg = ''output.dat''" by (simp add: shippedConfig_def)
  from w have w': "writeOutputFile ?cfg False [?dr] 2 ?fs
       = Some (None, \<lparr> contents = [''output.dat'' \<mapsto> Bytes (
                 replicate 2048 34 @ replicate 2048 32 @ replicate 2048 172
                 @ (replicate 63 170 @ 7 # replicate 1984 170)
                 @ replicate 2048 34 @ replicate 2048 32 @ replicate 2048 172
                 @ (replicate 63 170 @ 9 # replicate 1984 170))], unwritable = {} \<rparr>)"
    unfolding lay name by simp
  have len: "length (replicate 2048 (34 :: u8) @ replicate 2048 32 @ replicate 2048 172
                 @ (replicate 63 170 @ 7 # replicate 1984 170)
                 @ replicate 2048 34 @ replicate 2048 32 @ replicate 2048 172
                 @ (replicate 63 170 @ 9 # replicate 1984 170)) = 16384"
    by simp
  from h0 h2 h3 h4 h5 b0 b1 r0 w' len show ?thesis by blast
qed

text \<open>
  C6 as stated fails in four ways.
  \<^item> The line \<open>1, -1 $ A\<close> is accepted by \<open>loadDistribution\<close> (as the record
    \<open>1, -1, 1\<close>) and by \<open>verifyDistributionIsValid\<close> (one frame group), and the first
    data frame \<open>writeOutputFile\<close> builds stores past the end of the frame buffer: the
    program stops there, before \<open>fclose\<close>, and the file is not the layout.
  \<^item> With \<open>frameGroupCount = 2^31\<close> the counter's \<open>++frameGroup\<close> at \<open>INT_MAX\<close> has no
    defined result.
  \<^item> With \<open>cells_per_frame = 2^31 + 2048\<close> the first data frame's \<open>reorderForLvds\<close> has
    no defined result: the row offset \<open>ROW_SIZE * row\<close> leaves the range of \<open>int\<close>.
  \<^item> With \<open>2^32\<close> diagnostic values \<open>diagnosticFrames\<close> is 0: the file of one group holds
    the data frame only, and no diagnostic frame.
\<close>

theorem C6_writer_stops_or_truncates:
  "loadDistribution shippedConfig [''A'' \<mapsto> [7]]
      (Some [\<lparr> firstField = 1, lastField = - 1, stepField = 0, fragmentNames = [''A''] \<rparr>]) []
     = (None, [\<lparr> first = 1, last_cell = - 1, step = 1, cellValue = [7] \<rparr>])
   \<and> verifyDistributionIsValid shippedConfig
        [\<lparr> first = 1, last_cell = - 1, step = 1, cellValue = [7] \<rparr>]
     = Inr \<lparr> longestSequence = 1, frameGroupLength = 4585, frameGroupCount = 1,
             maxFrames = 20971520, totalReqdFrames = 4585, totalContigReqd = 9390080 \<rparr>
   \<and> writeOutputFile shippedConfig False
        [\<lparr> first = 1, last_cell = - 1, step = 1, cellValue = [7] \<rparr>] 1
        \<lparr> contents = Map.empty, unwritable = {} \<rparr>
     = Some (Some OutOfBounds,
         \<lparr> contents = [''output.dat'' \<mapsto> Indeterminate], unwritable = {} \<rparr>)
   \<and> execute shippedConfig False [''A'' \<mapsto> [7]]
        (Some [\<lparr> firstField = 1, lastField = - 1, stepField = 0, fragmentNames = [''A''] \<rparr>])
        \<lparr> contents = Map.empty, unwritable = {} \<rparr>
     = Some (Some OutOfBounds,
         \<lparr> contents = [''output.dat'' \<mapsto> Indeterminate], unwritable = {} \<rparr>)
   \<and> writeOutputFile shippedConfig False [] 2147483648
        \<lparr> contents = Map.empty, unwritable = {} \<rparr>
     = Some (Some SignedOverflow,
         \<lparr> contents = [''output.dat'' \<mapsto> Indeterminate], unwritable = {} \<rparr>)
   \<and> writeOutputFile (shippedConfig\<lparr> cells_per_frame := 2147485696 \<rparr>) False [] 1
        \<lparr> contents = Map.empty, unwritable = {} \<rparr>
     = Some (Some SignedOverflow,
         \<lparr> contents = [''output.dat'' \<mapsto> Indeterminate], unwritable = {} \<rparr>)
   \<and> length (diagnostic_values
        (shippedConfig\<lparr> diagnostic_values := replicate 4294967296 0, data_frames := 1 \<rparr>))
     = 4294967296
   \<and> writeOutputFile
        (shippedConfig\<lparr> diagnostic_values := replicate 4294967296 0, data_frames := 1 \<rparr>) True [] 1
        \<lparr> contents = Map.empty, unwritable = {} \<rparr>
     = Some (None,
         \<lparr> contents = [''output.dat'' \<mapsto> Bytes (replicate 2048 170)], unwritable = {} \<rparr>)"
proof -
  let ?fs = "\<lparr> contents = Map.empty, unwritable = {} \<rparr> :: filesystem"
  let ?ln = "\<lparr> firstField = 1, lastField = - 1, stepField = 0, fragmentNames = [''A''] \<rparr>"
  let ?dr = "\<lparr> first = 1, last_cell = - 1, step = 1, cellValue = [7 :: u8] \<rparr>"
  have name: "output_file shippedConfig = ''output.dat''" by (simp add: shippedConfig_def)
  have one: "(0 :: i32) < (1 :: u32)" by simp
  have ld: "loadDistribution shippedConfig [''A'' \<mapsto> [7]] (Some [?ln]) [] = (None, [?dr])"
    by (simp add: loadDistribution_def loadDistributionLine_def shippedConfig_def)
  have vf: "verifyDistributionIsValid shippedConfig [?dr]
     = Inr \<lparr> longestSequence = 1, frameGroupLength = 4585, frameGroupCount = 1,
             maxFrames = 20971520, totalReqdFrames = 4585, totalContigReqd = 9390080 \<rparr>"
    by (simp add: verifyDistributionIsValid_def findLongestSequence_def shippedConfig_def
        ROW_SIZE_def Let_def)
  have "populateCells 0 (- 1) 1 7
          (replicate (unat (cells_per_frame shippedConfig)) (quiescent shippedConfig))
      = Some (Inl OutOfBounds)"
    by (rule populateCells_overrun)
      (simp_all add: shippedConfig_def unsigned_minus_1_eq_mask mask_eq_exp_minus_1)
  then have bd: "buildDataFrame shippedConfig [?dr] 0 = Some (Inl OutOfBounds)"
    by (simp add: buildDataFrame_def distributeRecord_def shippedConfig_def)
  have df: "0 < unat (data_frames shippedConfig)" by (simp add: shippedConfig_def)
  have "writeFrameGroups shippedConfig False [?dr] 1 0 0 [] = Some (Inl OutOfBounds)"
    by (subst writeFrameGroups.simps)
      (simp only: one if_True writeDataFrames_build_fails[OF df bd] option.case sum.case)
  then have w1: "writeOutputFile shippedConfig False [?dr] 1 ?fs
     = Some (Some OutOfBounds, \<lparr> contents = [''output.dat'' \<mapsto> Indeterminate], unwritable = {} \<rparr>)"
    by (simp add: writeOutputFile_def name)
  have ex: "execute shippedConfig False [''A'' \<mapsto> [7]] (Some [?ln]) ?fs
     = Some (Some OutOfBounds, \<lparr> contents = [''output.dat'' \<mapsto> Indeterminate], unwritable = {} \<rparr>)"
    by (simp only: execute_def ld vf w1 prod.case option.case sum.case
        capacity_t.select_convs)
  have lv: "False \<or> unat (cells_per_frame shippedConfig) < 2147485696"
    by (simp add: shippedConfig_def)
  have cnt: "2147483648 \<le> unat (2147483648 :: u32)" by simp
  have bq: "buildDataFrame shippedConfig [] n
      = Some (Inr (replicate (unat (cells_per_frame shippedConfig)) (quiescent shippedConfig)))"
    for n
    by (simp add: buildDataFrame_def)
  have "writeFrameGroups shippedConfig False [] 2147483648 (of_nat 0) 0 [] = Some (Inl SignedOverflow)"
    by (rule writeFrameGroups_overflow[OF lv cnt bq]) simp
  then have w2: "writeOutputFile shippedConfig False [] 2147483648 ?fs
     = Some (Some SignedOverflow, \<lparr> contents = [''output.dat'' \<mapsto> Indeterminate], unwritable = {} \<rparr>)"
    by (simp add: writeOutputFile_def name)
  let ?big = "shippedConfig\<lparr> cells_per_frame := 2147485696 \<rparr>"
  let ?bq = "replicate (unat (cells_per_frame ?big)) (quiescent ?big)"
  have bb: "buildDataFrame ?big [] 0 = Some (Inr ?bq)"
    by (simp only: buildDataFrame_def distributeRecords.simps)
  have ro: "reorderForLvds ?big ?bq = Inl SignedOverflow"
    by (rule reorderForLvds_overflow) simp_all
  have dfb: "0 < unat (data_frames ?big)" by (simp add: shippedConfig_def)
  have "writeFrameGroups ?big False [] 1 0 0 [] = Some (Inl SignedOverflow)"
    by (subst writeFrameGroups.simps)
      (simp only: one if_True writeDataFrames_reorder_fails[OF dfb bb ro] option.case sum.case)
  then have w3: "writeOutputFile ?big False [] 1 ?fs
     = Some (Some SignedOverflow, \<lparr> contents = [''output.dat'' \<mapsto> Indeterminate], unwritable = {} \<rparr>)"
    by (simp add: writeOutputFile_def shippedConfig_def)
  let ?many = "shippedConfig\<lparr> diagnostic_values := replicate 4294967296 0, data_frames := 1 \<rparr>"
  have dl: "length (diagnostic_values ?many) = 4294967296" by simp
  have wd: "writeDiagnosticFrames ?many [] = []"
    by (simp add: writeDiagnosticFrames_def)
  have bm: "buildDataFrame ?many [] 0 = Some (Inr (replicate 2048 170))"
    by (simp add: buildDataFrame_def shippedConfig_def)
  have dm: "writeDataFrames ?many True [] (unat (data_frames ?many)) 0 [] = Some (Inr (1, replicate 2048 170))"
    using bm by simp
  have two: "\<not> (0 + 1 :: i32) < (1 :: u32)" "sint (0 :: i32) \<noteq> 2147483647" by simp_all
  have "writeFrameGroups ?many True [] 1 0 0 [] = Some (Inr (1, replicate 2048 170))"
    by (subst writeFrameGroups.simps, subst writeFrameGroups.simps)
      (simp only: one two wd dm if_True if_False option.case sum.case prod.case)
  then have w4: "writeOutputFile ?many True [] 1 ?fs
     = Some (None, \<lparr> contents = [''output.dat'' \<mapsto> Bytes (replicate 2048 170)], unwritable = {} \<rparr>)"
    by (simp add: writeOutputFile_def shippedConfig_def)
  from ld vf w1 ex w2 w3 dl w4 show ?thesis by blast
qed

end
